theory Spec2Isabelle
  imports Main "HOL-Library.Word"
begin

unbundle bit_operations_syntax

section \<open>The bridge of curl_asio.hpp between libcurl's multi interface and the reactor\<close>

text \<open>
  The header \<^verbatim>\<open>curl_asio.hpp\<close> holds three classes: \<^verbatim>\<open>transfer\<close> (one
  logical transfer), \<^verbatim>\<open>socketinfo\<close> (the reactor binding of one descriptor) and
  \<^verbatim>\<open>implementation\<close> (the bridge that owns the multi handle). Objects live on the
  heap and are shared through \<^verbatim>\<open>shared_ptr\<close>; the model keeps one store per class,
  indexed by the object's address, and one \<^verbatim>\<open>implementation\<close> object.

  libcurl and boost::asio are external. Every call into them is appended to a trace, and
  what they answer is read from oracles that may depend on the whole trace so far. Calls
  that libcurl makes back into the bridge while one of its functions runs
  (\<^verbatim>\<open>curl_socket_function\<close>, \<^verbatim>\<open>curl_timer_function\<close>, \<^verbatim>\<open>curl_write_function\<close>)
  are entry points of the model of their own; they are not replayed inside the engine call.
\<close>

subsection \<open>Values of the headers\<close>

type_synonym tid = nat \<comment> \<open>address of a \<^verbatim>\<open>transfer\<close> object\<close>
type_synonym sid = nat \<comment> \<open>address of a \<^verbatim>\<open>socketinfo\<close> object\<close>
type_synonym CURL = nat \<comment> \<open>an easy handle (\<^verbatim>\<open>CURL*\<close>, not null)\<close>
type_synonym curl_socket_t = int
type_synonym CURLcode = int
type_synonym CURLMcode = int
type_synonym size_t = "64 word"
type_synonym const_buffer = "8 word list \<times> size_t" \<comment> \<open>the bytes at \<^verbatim>\<open>ptr\<close> and \<^verbatim>\<open>size\<close>\<close>

text \<open>
  Modelled from the spec: the constants of \<^verbatim>\<open>curl/curl.h\<close>, \<^verbatim>\<open>curl/multi.h\<close> and
  \<^verbatim>\<open>sys/socket.h\<close> are not part of the repository. The spec names the actions of the
  socket callback (watch-read, watch-write, watch-both, remove, none), a pause signal
  that is neither zero nor a byte count, and the stream and datagram socket types; the
  numbers are the ones the headers give on Linux.
\<close>

definition CURL_POLL_NONE :: int where "CURL_POLL_NONE = 0"
definition CURL_POLL_IN :: int where "CURL_POLL_IN = 1"
definition CURL_POLL_OUT :: int where "CURL_POLL_OUT = 2"
definition CURL_POLL_INOUT :: int where "CURL_POLL_INOUT = 3"
definition CURL_POLL_REMOVE :: int where "CURL_POLL_REMOVE = 4"
definition CURL_SOCKET_TIMEOUT :: curl_socket_t where "CURL_SOCKET_TIMEOUT = - 1"
definition CURLM_OK :: CURLMcode where "CURLM_OK = 0"
definition CURLE_OK :: CURLcode where "CURLE_OK = 0"
definition CURLMSG_DONE :: int where "CURLMSG_DONE = 1"
definition CURL_WRITEFUNC_PAUSE :: size_t where "CURL_WRITEFUNC_PAUSE = 0x10000001"
definition SOCK_STREAM :: int where "SOCK_STREAM = 1"
definition SOCK_DGRAM :: int where "SOCK_DGRAM = 2"
definition AF_INET :: int where "AF_INET = 2"
definition AF_INET6 :: int where "AF_INET6 = 10"

subsection \<open>Data\<close>

datatype data_action = success | pause | abort

text \<open>
  What application code does inside a callback is a list of calls of the public
  interface of \<^verbatim>\<open>transfer\<close>: \<^verbatim>\<open>start(url)\<close>, \<^verbatim>\<open>stop()\<close> and \<^verbatim>\<open>running()\<close>.
\<close>

datatype user_op = CallStart tid string | CallStop tid | CallRunning tid

datatype curlopt =
    CURLOPT_PRIVATE tid
  | CURLOPT_NOSIGNAL
  | CURLOPT_WRITEFUNCTION
  | CURLOPT_WRITEDATA tid
  | CURLOPT_URL string

record CURLMsg =
  msg :: int
  easy_handle :: CURL
  data_result :: CURLcode

datatype event =
    EvEasyInit
  | EvEasyReset CURL
  | EvEasySetopt "CURL option" curlopt
  | EvMultiAddHandle CURL
  | EvMultiRemoveHandle "CURL option"
  | EvMultiAssign curl_socket_t "sid option"
  | EvMultiSocketAction curl_socket_t int
  | EvTimerCancel
  | EvTimerExpiresFromNow int
  | EvTimerAsyncWait
  | EvSocketCancel sid
  | EvAsyncWaitRead sid curl_socket_t int
  | EvAsyncWaitWrite sid curl_socket_t int
  | EvOnDone tid CURLcode
  | EvOnDataRead tid const_buffer
  | EvStartReturned tid bool
  | EvStopReturned tid bool
  | EvRunningReturned tid bool

datatype error = AssertionFailed | SystemError

record transfer =
  on_done :: "(CURLcode \<Rightarrow> user_op list) option"
  on_data_read :: "(const_buffer \<Rightarrow> data_action \<times> user_op list) option"
  t_impl :: bool \<comment> \<open>\<^verbatim>\<open>impl_\<close> is not null\<close>
  t_callback_recursions :: "32 word"
  t_handle :: "CURL option"
  t_running :: bool
  t_url :: string
  t_lock :: bool \<comment> \<open>\<^verbatim>\<open>lock_\<close> holds the self-reference\<close>

record socketinfo =
  s_tcp :: bool \<comment> \<open>\<^verbatim>\<open>tcp_\<close> is not null\<close>
  s_udp :: bool \<comment> \<open>\<^verbatim>\<open>udp_\<close> is not null\<close>
  s_requested_action :: int
  s_lock :: bool

text \<open>The answers of libcurl, each a function of the calls made so far.\<close>

record engine =
  curl_easy_init_result :: "event list \<Rightarrow> CURL option"
  curl_easy_getinfo_rc :: "event list \<Rightarrow> CURL \<Rightarrow> CURLcode"
  curl_multi_add_handle_rc :: "event list \<Rightarrow> CURL \<Rightarrow> CURLMcode"
  curl_multi_remove_handle_rc :: "event list \<Rightarrow> CURL option \<Rightarrow> CURLMcode"
  curl_multi_assign_rc :: "event list \<Rightarrow> curl_socket_t \<Rightarrow> CURLMcode"
  curl_multi_socket_action_result ::
    "event list \<Rightarrow> curl_socket_t \<Rightarrow> int \<Rightarrow> CURLMcode \<times> int \<times> CURLMsg list"

text \<open>
  The answers of the operating system and of the reactor to \<^verbatim>\<open>socketinfo::create\<close>:
  the socket type (\<open>None\<close> when \<^verbatim>\<open>getsockopt\<close> fails), the address family (\<open>None\<close>
  when \<^verbatim>\<open>getsockname\<close> fails), and whether \<^verbatim>\<open>assign\<close> accepts the duplicate of the
  descriptor (the overload the source calls throws \<^verbatim>\<open>system_error\<close> when it does not).
\<close>

record os =
  getsockopt_type :: "curl_socket_t \<Rightarrow> int option"
  getsockname_family :: "curl_socket_t \<Rightarrow> int option"
  dup_assign_ok :: "curl_socket_t \<Rightarrow> bool"

record world =
  xfers :: "tid \<Rightarrow> transfer"
  socks :: "sid \<Rightarrow> socketinfo"
  next_sock :: sid \<comment> \<open>the address \<^verbatim>\<open>new socketinfo\<close> returns next\<close>
  i_callback_recursions :: "32 word"
  i_sockets :: "(curl_socket_t \<times> sid) list" \<comment> \<open>\<^verbatim>\<open>sockets_\<close>, in key order\<close>
  i_transfers :: "tid list" \<comment> \<open>\<^verbatim>\<open>transfers_\<close>, in pointer order\<close>
  i_running :: int
  i_terminated :: bool
  curl_msgs :: "CURLMsg list" \<comment> \<open>the completion queue of the multi handle\<close>
  easy_private :: "CURL \<Rightarrow> tid option" \<comment> \<open>the slot \<^verbatim>\<open>CURLOPT_PRIVATE\<close> of each easy handle\<close>
  engine :: engine
  os :: os
  trace :: "event list"

subsection \<open>Helpers: the trace, the stores, \<^verbatim>\<open>std::set\<close> and \<^verbatim>\<open>std::map\<close>\<close>

definition log_event :: "world \<Rightarrow> event \<Rightarrow> world" where
  "log_event w e = w\<lparr>trace := trace w @ [e]\<rparr>"

definition upd_transfer :: "world \<Rightarrow> tid \<Rightarrow> (transfer \<Rightarrow> transfer) \<Rightarrow> world" where
  "upd_transfer w t f = w\<lparr>xfers := (xfers w)(t := f (xfers w t))\<rparr>"

definition upd_socket :: "world \<Rightarrow> sid \<Rightarrow> (socketinfo \<Rightarrow> socketinfo) \<Rightarrow> world" where
  "upd_socket w s f = w\<lparr>socks := (socks w)(s := f (socks w s))\<rparr>"

fun set_insert :: "nat \<Rightarrow> nat list \<Rightarrow> nat list" where
  "set_insert x [] = [x]"
| "set_insert x (y # ys) =
     (if x = y then y # ys else if x < y then x # y # ys else y # set_insert x ys)"

fun set_erase :: "nat \<Rightarrow> nat list \<Rightarrow> nat list" where
  "set_erase x [] = []"
| "set_erase x (y # ys) = (if x = y then ys else y # set_erase x ys)"

fun map_find :: "(int \<times> 'v) list \<Rightarrow> int \<Rightarrow> 'v option" where
  "map_find [] k = None"
| "map_find ((k', v) # kvs) k = (if k = k' then Some v else map_find kvs k)"

fun map_insert :: "int \<Rightarrow> 'v \<Rightarrow> (int \<times> 'v) list \<Rightarrow> (int \<times> 'v) list" where
  "map_insert k v [] = [(k, v)]"
| "map_insert k v ((k', v') # kvs) =
     (if k = k' then (k', v') # kvs
      else if k < k' then (k, v) # (k', v') # kvs
      else (k', v') # map_insert k v kvs)"

fun map_erase :: "int \<Rightarrow> (int \<times> 'v) list \<Rightarrow> (int \<times> 'v) list" where
  "map_erase k [] = []"
| "map_erase k ((k', v) # kvs) = (if k = k' then kvs else (k', v) # map_erase k kvs)"

subsection \<open>Calls into libcurl\<close>

definition curl_easy_setopt :: "world \<Rightarrow> CURL option \<Rightarrow> curlopt \<Rightarrow> world" where
  "curl_easy_setopt w h opt =
     (let w1 = log_event w (EvEasySetopt h opt)
      in case (h, opt) of
           (Some e, CURLOPT_PRIVATE p) \<Rightarrow> w1\<lparr>easy_private := (easy_private w1)(e := Some p)\<rparr>
         | _ \<Rightarrow> w1)"

definition curl_easy_reset :: "world \<Rightarrow> CURL \<Rightarrow> world" where
  "curl_easy_reset w e =
     (let w1 = log_event w (EvEasyReset e)
      in w1\<lparr>easy_private := (easy_private w1)(e := None)\<rparr>)"

definition curl_easy_init :: "world \<Rightarrow> CURL option \<times> world" where
  "curl_easy_init w = (curl_easy_init_result (engine w) (trace w), log_event w EvEasyInit)"

definition curl_multi_add_handle :: "world \<Rightarrow> CURL \<Rightarrow> CURLMcode \<times> world" where
  "curl_multi_add_handle w e =
     (curl_multi_add_handle_rc (engine w) (trace w) e, log_event w (EvMultiAddHandle e))"

definition curl_multi_remove_handle :: "world \<Rightarrow> CURL option \<Rightarrow> CURLMcode \<times> world" where
  "curl_multi_remove_handle w h =
     (curl_multi_remove_handle_rc (engine w) (trace w) h, log_event w (EvMultiRemoveHandle h))"

definition curl_multi_assign :: "world \<Rightarrow> curl_socket_t \<Rightarrow> sid option \<Rightarrow> CURLMcode \<times> world" where
  "curl_multi_assign w s p =
     (curl_multi_assign_rc (engine w) (trace w) s, log_event w (EvMultiAssign s p))"

text \<open>
  The drive call: it answers a code and the number of running transfers (stored through
  \<^verbatim>\<open>&running_\<close>) and may queue completion messages.
\<close>

definition curl_multi_socket_action :: "world \<Rightarrow> curl_socket_t \<Rightarrow> int \<Rightarrow> CURLMcode \<times> world" where
  "curl_multi_socket_action w s ev =
     (case curl_multi_socket_action_result (engine w) (trace w) s ev of
        (rc, n, ms) \<Rightarrow>
          (rc, (log_event w (EvMultiSocketAction s ev))
                 \<lparr>i_running := n, curl_msgs := curl_msgs w @ ms\<rparr>))"

definition curl_multi_info_read :: "world \<Rightarrow> CURLMsg option \<times> world" where
  "curl_multi_info_read w =
     (case curl_msgs w of
        [] \<Rightarrow> (None, w)
      | m # ms \<Rightarrow> (Some m, w\<lparr>curl_msgs := ms\<rparr>))"

subsection \<open>\<^verbatim>\<open>implementation::add_transfer\<close> and \<^verbatim>\<open>implementation::remove_transfer\<close>\<close>

definition lock :: "world \<Rightarrow> tid \<Rightarrow> world" where
  "lock w t = upd_transfer w t (\<lambda>x. x\<lparr>t_lock := True\<rparr>)"

definition unlock :: "world \<Rightarrow> tid \<Rightarrow> world" where
  "unlock w t = upd_transfer w t (\<lambda>x. x\<lparr>t_lock := False\<rparr>)"

definition add_transfer :: "world \<Rightarrow> tid \<Rightarrow> error + (bool \<times> world)" where
  "add_transfer w t =
     (case t_handle (xfers w t) of
        None \<Rightarrow> Inl AssertionFailed
      | Some e \<Rightarrow>
          if \<not> i_terminated w then
            (case curl_multi_add_handle w e of
               (rc, w1) \<Rightarrow>
                 if rc \<le> CURLM_OK
                 then Inr (True, lock (w1\<lparr>i_transfers := set_insert t (i_transfers w1)\<rparr>) t)
                 else Inr (False, w1))
          else Inr (False, w))"

definition remove_transfer :: "world \<Rightarrow> tid \<Rightarrow> bool \<times> world" where
  "remove_transfer w t =
     (case curl_multi_remove_handle w (t_handle (xfers w t)) of
        (rc, w1) \<Rightarrow>
          if rc \<le> CURLM_OK then
            (if t \<in> set (i_transfers w1)
             then (True, (unlock w1 t)\<lparr>i_transfers := set_erase t (i_transfers w1)\<rparr>)
             else (True, w1))
          else (False, w1))"

subsection \<open>\<^verbatim>\<open>transfer\<close>\<close>

definition init :: "world \<Rightarrow> tid \<Rightarrow> bool \<times> world" where
  "init w t =
     (let r = (case t_handle (xfers w t) of
                 Some e \<Rightarrow> (True, curl_easy_reset w e)
               | None \<Rightarrow>
                   (case curl_easy_init w of
                      (h, w1) \<Rightarrow> (h \<noteq> None, upd_transfer w1 t (\<lambda>x. x\<lparr>t_handle := h\<rparr>))))
      in if \<not> fst r then (False, snd r)
         else
           (let h = t_handle (xfers (snd r) t);
                w2 = curl_easy_setopt (snd r) h (CURLOPT_PRIVATE t);
                w3 = curl_easy_setopt w2 h CURLOPT_NOSIGNAL;
                w4 = curl_easy_setopt w3 h CURLOPT_WRITEFUNCTION;
                w5 = curl_easy_setopt w4 h (CURLOPT_WRITEDATA t)
            in (True, w5)))"

definition start :: "world \<Rightarrow> tid \<Rightarrow> string \<Rightarrow> error + (bool \<times> world)" where
  "start w t url =
     (if t_running (xfers w t) \<or> \<not> t_impl (xfers w t) \<or> t_callback_recursions (xfers w t) > 0
      then Inr (False, w)
      else
        (case init w t of
           (ok, w1) \<Rightarrow>
             if \<not> ok then Inr (False, w1)
             else
               (let w2 = upd_transfer w1 t (\<lambda>x. x\<lparr>t_url := url\<rparr>);
                    w3 = curl_easy_setopt w2 (t_handle (xfers w2 t)) (CURLOPT_URL (t_url (xfers w2 t)))
                in case add_transfer w3 t of
                     Inl e \<Rightarrow> Inl e
                   | Inr (added, w4) \<Rightarrow>
                       if added then Inr (True, upd_transfer w4 t (\<lambda>x. x\<lparr>t_running := True\<rparr>))
                       else Inr (False, w4))))"

definition stop :: "world \<Rightarrow> tid \<Rightarrow> bool \<times> world" where
  "stop w t =
     (if \<not> t_running (xfers w t) \<or> \<not> t_impl (xfers w t) then (False, w)
      else if t_callback_recursions (xfers w t) > 0
      then (True, upd_transfer w t (\<lambda>x. x\<lparr>t_running := False\<rparr>))
      else
        (case remove_transfer w t of
           (removed, w1) \<Rightarrow>
             if removed then (True, upd_transfer w1 t (\<lambda>x. x\<lparr>t_running := False\<rparr>))
             else (False, w1)))"

definition running :: "world \<Rightarrow> tid \<Rightarrow> bool" where
  "running w t = t_running (xfers w t)"

definition transfer_terminate :: "world \<Rightarrow> tid \<Rightarrow> world" where
  "transfer_terminate w t = upd_transfer w t (\<lambda>x. x\<lparr>t_impl := False\<rparr>)"

text \<open>Application code inside a callback: each call is made and its answer is seen.\<close>

fun call_user_op :: "world \<Rightarrow> user_op \<Rightarrow> error + world" where
  "call_user_op w (CallStart t url) =
     (case start w t url of
        Inl e \<Rightarrow> Inl e
      | Inr (r, w1) \<Rightarrow> Inr (log_event w1 (EvStartReturned t r)))"
| "call_user_op w (CallStop t) =
     (case stop w t of (r, w1) \<Rightarrow> Inr (log_event w1 (EvStopReturned t r)))"
| "call_user_op w (CallRunning t) = Inr (log_event w (EvRunningReturned t (running w t)))"

fun run_callback :: "world \<Rightarrow> user_op list \<Rightarrow> error + world" where
  "run_callback w [] = Inr w"
| "run_callback w (c # cs) =
     (case call_user_op w c of
        Inl e \<Rightarrow> Inl e
      | Inr w1 \<Rightarrow> run_callback w1 cs)"

definition handle_done :: "world \<Rightarrow> tid \<Rightarrow> CURLcode \<Rightarrow> error + world" where
  "handle_done w t res =
     (case on_done (xfers w t) of
        Some f \<Rightarrow>
          (case run_callback (log_event w (EvOnDone t res)) (f res) of
             Inl e \<Rightarrow> Inl e
           | Inr w1 \<Rightarrow> Inr (upd_transfer w1 t (\<lambda>x. x\<lparr>t_running := False\<rparr>)))
      | None \<Rightarrow> Inr (upd_transfer w t (\<lambda>x. x\<lparr>t_running := False\<rparr>)))"

text \<open>
  \<^verbatim>\<open>callback_protector\<close> increments the counter of the transfer when it is constructed
  and decrements it when the scope is left, on every return.
\<close>

definition protector_enter :: "world \<Rightarrow> tid \<Rightarrow> world" where
  "protector_enter w t =
     upd_transfer w t (\<lambda>x. x\<lparr>t_callback_recursions := t_callback_recursions x + 1\<rparr>)"

definition protector_leave :: "world \<Rightarrow> tid \<Rightarrow> world" where
  "protector_leave w t =
     upd_transfer w t (\<lambda>x. x\<lparr>t_callback_recursions := t_callback_recursions x - 1\<rparr>)"

definition write_function :: "world \<Rightarrow> tid \<Rightarrow> const_buffer \<Rightarrow> error + (size_t \<times> world)" where
  "write_function w t buf =
     (case (t_impl (xfers w t), on_data_read (xfers w t)) of
        (True, Some f) \<Rightarrow>
          (let w1 = protector_enter w t;
               answer = f buf
           in case run_callback (log_event w1 (EvOnDataRead t buf)) (snd answer) of
                Inl e \<Rightarrow> Inl e
              | Inr w2 \<Rightarrow>
                  if \<not> t_running (xfers w2 t) then Inr (0, protector_leave w2 t)
                  else
                    (case fst answer of
                       success \<Rightarrow> Inr (snd buf, protector_leave w2 t)
                     | pause \<Rightarrow> Inr (CURL_WRITEFUNC_PAUSE, protector_leave w2 t)
                     | abort \<Rightarrow> Inr (0, protector_leave w2 t)))
      | _ \<Rightarrow> Inr (snd buf, w))"

subsection \<open>\<^verbatim>\<open>socketinfo\<close>\<close>

definition new_socketinfo :: "world \<Rightarrow> bool \<Rightarrow> bool \<Rightarrow> sid option \<times> world" where
  "new_socketinfo w tcp udp =
     (Some (next_sock w),
      w\<lparr>socks := (socks w)(next_sock w :=
           \<lparr>s_tcp = tcp, s_udp = udp, s_requested_action = CURL_POLL_NONE, s_lock = False\<rparr>),
        next_sock := next_sock w + 1\<rparr>)"

definition socketinfo_create :: "world \<Rightarrow> curl_socket_t \<Rightarrow> error + (sid option \<times> world)" where
  "socketinfo_create w s =
     (case getsockopt_type (os w) s of
        None \<Rightarrow> Inr (None, w)
      | Some ty \<Rightarrow>
          (case getsockname_family (os w) s of
             None \<Rightarrow> Inr (None, w)
           | Some family \<Rightarrow>
               if ty = SOCK_STREAM then
                 (if family = AF_INET then
                    (if dup_assign_ok (os w) s then Inr (new_socketinfo w True False)
                     else Inl SystemError)
                  else if family = AF_INET6 then
                    (if dup_assign_ok (os w) s then Inr (new_socketinfo w True False)
                     else Inl SystemError)
                  else Inr (None, w))
               else if ty = SOCK_DGRAM then
                 (if family = AF_INET then
                    (if dup_assign_ok (os w) s then Inr (new_socketinfo w False True)
                     else Inl SystemError)
                  else if family = AF_INET6 then
                    (if dup_assign_ok (os w) s then Inr (new_socketinfo w False True)
                     else Inl SystemError)
                  else Inr (None, w))
               else Inr (None, w)))"

definition socketinfo_cancel :: "world \<Rightarrow> sid \<Rightarrow> world" where
  "socketinfo_cancel w p =
     (if s_tcp (socks w p) then log_event w (EvSocketCancel p)
      else if s_udp (socks w p) then log_event w (EvSocketCancel p)
      else w)"

text \<open>
  The handler of a wait is \<^verbatim>\<open>async_wait_complete\<close> bound to the descriptor, the
  direction and the \<^verbatim>\<open>socketinfo\<close>; the event keeps these arguments.
\<close>

definition async_wait_read :: "world \<Rightarrow> sid \<Rightarrow> curl_socket_t \<Rightarrow> int \<Rightarrow> world" where
  "async_wait_read w p s action =
     (if s_tcp (socks w p) then log_event w (EvAsyncWaitRead p s action)
      else if s_udp (socks w p) then log_event w (EvAsyncWaitRead p s action)
      else w)"

definition async_wait_write :: "world \<Rightarrow> sid \<Rightarrow> curl_socket_t \<Rightarrow> int \<Rightarrow> world" where
  "async_wait_write w p s action =
     (if s_tcp (socks w p) then log_event w (EvAsyncWaitWrite p s action)
      else if s_udp (socks w p) then log_event w (EvAsyncWaitWrite p s action)
      else w)"

definition requested_action :: "world \<Rightarrow> sid \<Rightarrow> int" where
  "requested_action w p = s_requested_action (socks w p)"

definition set_requested_action :: "world \<Rightarrow> sid \<Rightarrow> int \<Rightarrow> world" where
  "set_requested_action w p action =
     socketinfo_cancel (upd_socket w p (\<lambda>x. x\<lparr>s_requested_action := action\<rparr>)) p"

definition socketinfo_add :: "world \<Rightarrow> sid \<Rightarrow> world" where
  "socketinfo_add w p = upd_socket w p (\<lambda>x. x\<lparr>s_lock := True\<rparr>)"

definition socketinfo_remove :: "world \<Rightarrow> sid \<Rightarrow> world" where
  "socketinfo_remove w p = upd_socket (socketinfo_cancel w p) p (\<lambda>x. x\<lparr>s_lock := False\<rparr>)"

definition removed :: "world \<Rightarrow> sid \<Rightarrow> bool" where
  "removed w p = (\<not> s_lock (socks w p))"

subsection \<open>\<^verbatim>\<open>implementation\<close>\<close>

definition timer_cancel :: "world \<Rightarrow> world" where
  "timer_cancel w = log_event w EvTimerCancel"

definition terminate :: "world \<Rightarrow> error + world" where
  "terminate w =
     (if i_terminated w then Inl AssertionFailed
      else
        (let w1 = w\<lparr>i_terminated := True\<rparr>;
             w2 = timer_cancel w1;
             w3 = foldl (\<lambda>v it. socketinfo_cancel v (snd it)) w2 (i_sockets w2);
             w4 = w3\<lparr>i_sockets := []\<rparr>;
             w5 = foldl transfer_terminate w4 (i_transfers w4);
             w6 = w5\<lparr>i_transfers := []\<rparr>
         in Inr w6))"

definition from_easy :: "world \<Rightarrow> CURL \<Rightarrow> tid option" where
  "from_easy w easy =
     (if curl_easy_getinfo_rc (engine w) (trace w) easy = CURLE_OK then easy_private w easy
      else None)"

subsection \<open>Steps that fire no completion callback and leave the completion queue alone\<close>

fun is_on_done :: "event \<Rightarrow> bool" where
  "is_on_done (EvOnDone t r) = True"
| "is_on_done e = False"

definition quiet :: "world \<Rightarrow> world \<Rightarrow> bool" where
  "quiet w w' =
     (curl_msgs w' = curl_msgs w \<and>
      (\<exists>evs. trace w' = trace w @ evs \<and> filter is_on_done evs = []))"

lemma quiet_refl: "quiet w w"
  by (simp add: quiet_def)

lemma quiet_trans: "quiet a b \<Longrightarrow> quiet b c \<Longrightarrow> quiet a c"
  by (auto simp: quiet_def)

lemma quiet_log: "\<not> is_on_done e \<Longrightarrow> quiet w (log_event w e)"
  by (simp add: quiet_def log_event_def)

lemma quiet_upd_transfer: "quiet w (upd_transfer w t f)"
  by (simp add: quiet_def upd_transfer_def)

lemma quiet_remove_transfer: "quiet w (snd (remove_transfer w t))"
  by (simp add: remove_transfer_def curl_multi_remove_handle_def unlock_def upd_transfer_def
      log_event_def quiet_def)

lemma quiet_stop: "quiet w (snd (stop w t))"
proof -
  obtain removed w1 where r: "remove_transfer w t = (removed, w1)"
    by (cases "remove_transfer w t")
  have q1: "quiet w w1" using quiet_remove_transfer [of w t] r by simp
  have q2: "quiet w (upd_transfer w1 t f)" for f
    by (rule quiet_trans [OF q1 quiet_upd_transfer])
  show ?thesis
    by (simp add: stop_def r q1 q2 quiet_refl quiet_upd_transfer)
qed

lemma quiet_curl_easy_setopt: "quiet w (curl_easy_setopt w h opt)"
  by (simp add: curl_easy_setopt_def log_event_def quiet_def Let_def
      split: option.splits curlopt.splits)

lemma quiet_curl_easy_reset: "quiet w (curl_easy_reset w e)"
  by (simp add: curl_easy_reset_def log_event_def quiet_def Let_def)

lemma quiet_init: "quiet w (snd (init w t))"
proof -
  define r where "r = (case t_handle (xfers w t) of
                 Some e \<Rightarrow> (True, curl_easy_reset w e)
               | None \<Rightarrow>
                   (case curl_easy_init w of
                      (h, w1) \<Rightarrow> (h \<noteq> None, upd_transfer w1 t (\<lambda>x. x\<lparr>t_handle := h\<rparr>))))"
  have r: "quiet w (snd r)"
  proof (cases "t_handle (xfers w t)")
    case None
    then show ?thesis
      by (simp add: r_def curl_easy_init_def upd_transfer_def log_event_def quiet_def)
  next
    case (Some e)
    then show ?thesis by (simp add: r_def quiet_curl_easy_reset)
  qed
  have "quiet w (curl_easy_setopt (curl_easy_setopt (curl_easy_setopt (curl_easy_setopt (snd r) h a) h b) h c) h d)"
    for h a b c d
    by (intro quiet_trans [OF r] quiet_trans [OF _ quiet_curl_easy_setopt] quiet_curl_easy_setopt)
  with r show ?thesis
    by (simp add: init_def Let_def r_def [symmetric])
qed

lemma quiet_add_transfer: "add_transfer w t = Inr (r, w') \<Longrightarrow> quiet w w'"
  by (auto simp: add_transfer_def curl_multi_add_handle_def lock_def upd_transfer_def
      log_event_def quiet_def split: option.splits if_splits)

lemma quiet_start:
  assumes "start w t url = Inr (r, w')"
  shows "quiet w w'"
proof (cases "t_running (xfers w t) \<or> \<not> t_impl (xfers w t) \<or> t_callback_recursions (xfers w t) > 0")
  case True
  with assms show ?thesis by (simp add: start_def quiet_refl)
next
  case guard: False
  obtain ok w1 where i: "init w t = (ok, w1)" by (cases "init w t")
  have q1: "quiet w w1" using quiet_init [of w t] i by simp
  show ?thesis
  proof (cases ok)
    case False
    with assms guard i q1 show ?thesis by (simp add: start_def)
  next
    case True
    define w2 where "w2 = upd_transfer w1 t (\<lambda>x. x\<lparr>t_url := url\<rparr>)"
    define w3 where "w3 = curl_easy_setopt w2 (t_handle (xfers w2 t)) (CURLOPT_URL (t_url (xfers w2 t)))"
    have q2: "quiet w1 w2" unfolding w2_def by (rule quiet_upd_transfer)
    have "quiet w2 w3" unfolding w3_def by (rule quiet_curl_easy_setopt)
    with q1 q2 have q3: "quiet w w3" by (blast intro: quiet_trans)
    have unf: "start w t url =
        (case add_transfer w3 t of
           Inl e \<Rightarrow> Inl e
         | Inr (added, w4) \<Rightarrow>
             if added then Inr (True, upd_transfer w4 t (\<lambda>x. x\<lparr>t_running := True\<rparr>))
             else Inr (False, w4))"
      using guard i True unfolding start_def w3_def w2_def by (simp add: Let_def)
    show ?thesis
    proof (cases "add_transfer w3 t")
      case (Inl e)
      with assms unf show ?thesis by simp
    next
      case (Inr p)
      obtain added w4 where p: "p = (added, w4)" by (cases p)
      have "add_transfer w3 t = Inr (added, w4)" by (simp add: Inr p)
      then have q4: "quiet w w4" by (rule quiet_trans [OF q3 quiet_add_transfer])
      have "w' = (if added then upd_transfer w4 t (\<lambda>x. x\<lparr>t_running := True\<rparr>) else w4)"
        using assms unf Inr p by (simp split: if_splits)
      then show ?thesis
        using q4 quiet_trans [OF q4 quiet_upd_transfer] by simp
    qed
  qed
qed

lemma quiet_call_user_op:
  assumes "call_user_op w c = Inr w'"
  shows "quiet w w'"
proof (cases c)
  case (CallStart t url)
  with assms obtain r w1 where s: "start w t url = Inr (r, w1)"
    and w': "w' = log_event w1 (EvStartReturned t r)"
    by (auto split: sum.splits prod.splits)
  show ?thesis unfolding w'
    by (rule quiet_trans [OF quiet_start [OF s] quiet_log]) simp
next
  case (CallStop t)
  with assms have w': "w' = log_event (snd (stop w t)) (EvStopReturned t (fst (stop w t)))"
    by (auto split: prod.splits)
  show ?thesis unfolding w'
    by (rule quiet_trans [OF quiet_stop quiet_log]) simp
next
  case (CallRunning t)
  with assms show ?thesis
    by (auto intro: quiet_log)
qed

lemma quiet_run_callback: "run_callback w cs = Inr w' \<Longrightarrow> quiet w w'"
proof (induction cs arbitrary: w)
  case Nil
  then show ?case by (simp add: quiet_refl)
next
  case (Cons c cs)
  from Cons.prems obtain w1 where c: "call_user_op w c = Inr w1"
    and r: "run_callback w1 cs = Inr w'"
    by (auto split: sum.splits)
  show ?case
    by (rule quiet_trans [OF quiet_call_user_op [OF c] Cons.IH [OF r]])
qed

lemma handle_done_msgs: "handle_done w t r = Inr w' \<Longrightarrow> curl_msgs w' = curl_msgs w"
  by (auto simp: handle_done_def upd_transfer_def log_event_def quiet_def
      split: option.splits sum.splits dest!: quiet_run_callback)

subsection \<open>\<^verbatim>\<open>implementation\<close>: the completion queue, the timer and the socket callback\<close>

text \<open>
  The loop of \<^verbatim>\<open>process_curl_messages\<close> reads the queue until it is empty. Neither
  \<^verbatim>\<open>remove_transfer\<close> nor a completion callback adds to the queue, so the loop ends.
\<close>

function process_curl_messages :: "world \<Rightarrow> error + world" where
  "process_curl_messages w =
     (case curl_multi_info_read w of
        (None, w1) \<Rightarrow> Inr w1
      | (Some m, w1) \<Rightarrow>
          if msg m = CURLMSG_DONE then
            (case from_easy w1 (easy_handle m) of
               None \<Rightarrow> Inl AssertionFailed
             | Some t \<Rightarrow>
                 (case handle_done (snd (remove_transfer w1 t)) t (data_result m) of
                    Inl e \<Rightarrow> Inl e
                  | Inr w2 \<Rightarrow> process_curl_messages w2))
          else process_curl_messages w1)"
  by pat_completeness auto
termination
proof (relation "measure (\<lambda>w. length (curl_msgs w))")
  show "wf (measure (\<lambda>w. length (curl_msgs w)))" by simp
next
  fix w x y m t b
  assume "(x, y) = curl_multi_info_read w" "x = Some m"
    "handle_done (snd (remove_transfer y t)) t (data_result m) = Inr b"
  then show "(b, w) \<in> measure (\<lambda>w. length (curl_msgs w))"
    using handle_done_msgs [of "snd (remove_transfer y t)" t "data_result m" b]
      quiet_remove_transfer [of y t]
    by (auto simp: curl_multi_info_read_def quiet_def split: list.splits)
next
  fix w x y m
  assume "(x, y) = curl_multi_info_read w" "x = Some m"
  then show "(y, w) \<in> measure (\<lambda>w. length (curl_msgs w))"
    by (auto simp: curl_multi_info_read_def split: list.splits)
qed

declare process_curl_messages.simps [simp del]

definition impl_protector_enter :: "world \<Rightarrow> world" where
  "impl_protector_enter w = w\<lparr>i_callback_recursions := i_callback_recursions w + 1\<rparr>"

definition impl_protector_leave :: "world \<Rightarrow> world" where
  "impl_protector_leave w = w\<lparr>i_callback_recursions := i_callback_recursions w - 1\<rparr>"

definition async_wait :: "world \<Rightarrow> curl_socket_t \<Rightarrow> int \<Rightarrow> sid \<Rightarrow> world" where
  "async_wait w s action p =
     (let req = requested_action w p;
          c = (req = CURL_POLL_INOUT \<or> (req \<noteq> action \<and> req \<noteq> CURL_POLL_NONE));
          w1 = (if c then socketinfo_cancel w p else w);
          action1 = (if c then req else action);
          w2 = (if action1 AND CURL_POLL_IN \<noteq> 0 then async_wait_read w1 p s CURL_POLL_IN else w1);
          w3 = (if action1 AND CURL_POLL_OUT \<noteq> 0 then async_wait_write w2 p s CURL_POLL_OUT else w2)
      in w3)"

text \<open>\<open>err\<close> is the truth value of the \<^verbatim>\<open>error_code\<close>: \<open>False\<close> is no error.\<close>

definition async_wait_complete ::
  "world \<Rightarrow> bool \<Rightarrow> curl_socket_t \<Rightarrow> int \<Rightarrow> sid \<Rightarrow> error + world" where
  "async_wait_complete w err s action p =
     (if \<not> err then
        (case curl_multi_socket_action (impl_protector_enter w) s action of
           (rc, w1) \<Rightarrow>
             if rc \<le> CURLM_OK then
               (case process_curl_messages w1 of
                  Inl e \<Rightarrow> Inl e
                | Inr w2 \<Rightarrow>
                    if i_running w2 > 0 then Inr (impl_protector_leave (async_wait w2 s action p))
                    else Inr (impl_protector_leave (socketinfo_cancel w2 p)))
             else Inr (impl_protector_leave w1))
      else Inr w)"

definition socket_function ::
  "world \<Rightarrow> curl_socket_t \<Rightarrow> int \<Rightarrow> sid option \<Rightarrow> error + (int \<times> world)" where
  "socket_function w s action sock =
     (let w1 = impl_protector_enter w;
          it = map_find (i_sockets w1) s
      in if action = CURL_POLL_REMOVE then
           (case (case sock of
                    Some p \<Rightarrow>
                      (case curl_multi_assign (socketinfo_remove w1 p) s None of
                         (rc, w2) \<Rightarrow> if rc \<le> CURLM_OK then Inr w2 else Inl AssertionFailed)
                  | None \<Rightarrow> Inr w1) of
              Inl e \<Rightarrow> Inl e
            | Inr w3 \<Rightarrow>
                Inr (0, impl_protector_leave
                          (if it \<noteq> None then w3\<lparr>i_sockets := map_erase s (i_sockets w3)\<rparr>
                           else w3)))
         else
           (case (case sock of
                    None \<Rightarrow>
                      (case socketinfo_create w1 s of
                         Inl e \<Rightarrow> Inl e
                       | Inr (created, w2) \<Rightarrow>
                           if it = None then Inr (created, w2) else Inl AssertionFailed)
                  | Some p \<Rightarrow> Inr (Some p, w1)) of
              Inl e \<Rightarrow> Inl e
            | Inr (sock1, w2) \<Rightarrow>
                (case (case (it, sock1) of
                         (None, Some p) \<Rightarrow>
                           (case curl_multi_assign (socketinfo_add w2 p) s (Some p) of
                              (rc, w3) \<Rightarrow>
                                if rc \<le> CURLM_OK
                                then Inr (Some p, w3\<lparr>i_sockets := map_insert s p (i_sockets w3)\<rparr>)
                                else Inl AssertionFailed)
                       | _ \<Rightarrow> Inr (it, w2)) of
                   Inl e \<Rightarrow> Inl e
                 | Inr (it1, w4) \<Rightarrow>
                     Inr (0, impl_protector_leave
                               (case it1 of
                                  Some p \<Rightarrow>
                                    if action \<noteq> CURL_POLL_NONE
                                    then async_wait (set_requested_action w4 p action) s action p
                                    else w4
                                | None \<Rightarrow> w4)))))"

definition timer_handler :: "world \<Rightarrow> bool \<Rightarrow> error + world" where
  "timer_handler w err =
     (if \<not> err then
        (case curl_multi_socket_action (impl_protector_enter w) CURL_SOCKET_TIMEOUT 0 of
           (rc, w1) \<Rightarrow>
             if rc \<le> CURLM_OK then
               (case process_curl_messages w1 of
                  Inl e \<Rightarrow> Inl e
                | Inr w2 \<Rightarrow> Inr (impl_protector_leave w2))
             else Inr (impl_protector_leave w1))
      else Inr w)"

text \<open>
  The wait started on the timer is bound to \<^verbatim>\<open>timer_handler\<close>; on expiry the reactor
  calls \<^verbatim>\<open>timer_handler\<close> with no error, on cancellation with an error.
\<close>

definition timer_function :: "world \<Rightarrow> int \<Rightarrow> error + (int \<times> world)" where
  "timer_function w timeout_ms =
     (let w1 = timer_cancel w
      in if timeout_ms > 0 then
           Inr (0, log_event (log_event w1 (EvTimerExpiresFromNow timeout_ms)) EvTimerAsyncWait)
         else
           (case timer_handler w1 False of
              Inl e \<Rightarrow> Inl e
            | Inr w2 \<Rightarrow> Inr (0, w2)))"


subsection \<open>Objects as their constructors leave them, and a sample environment\<close>

text \<open>
  \<open>new_transfer\<close> is the state after the constructor of \<^verbatim>\<open>transfer\<close> (with no
  callback assigned), \<open>new_implementation\<close> the state after the constructor of
  \<^verbatim>\<open>implementation\<close>. In the sample environment every call into libcurl succeeds;
  descriptor 5 cannot be probed and descriptor 6 cannot be assigned to a reactor socket.
\<close>

definition new_transfer :: transfer where
  "new_transfer =
     \<lparr>on_done = None, on_data_read = None, t_impl = True, t_callback_recursions = 0,
      t_handle = None, t_running = False, t_url = [], t_lock = False\<rparr>"

definition example_engine :: engine where
  "example_engine =
     \<lparr>curl_easy_init_result = (\<lambda>tr. Some (100 + length tr)),
      curl_easy_getinfo_rc = (\<lambda>tr e. 0),
      curl_multi_add_handle_rc = (\<lambda>tr e. 0),
      curl_multi_remove_handle_rc = (\<lambda>tr h. 0),
      curl_multi_assign_rc = (\<lambda>tr s. 0),
      curl_multi_socket_action_result = (\<lambda>tr s ev. (0, 0, []))\<rparr>"

definition example_os :: os where
  "example_os =
     \<lparr>getsockopt_type = (\<lambda>s. if s = 5 then None else Some SOCK_STREAM),
      getsockname_family = (\<lambda>s. Some AF_INET),
      dup_assign_ok = (\<lambda>s. s \<noteq> 6)\<rparr>"

definition new_implementation :: world where
  "new_implementation =
     \<lparr>xfers = (\<lambda>t. new_transfer),
      socks = (\<lambda>p. \<lparr>s_tcp = False, s_udp = False, s_requested_action = 0, s_lock = False\<rparr>),
      next_sock = 0,
      i_callback_recursions = 0, i_sockets = [], i_transfers = [], i_running = 0,
      i_terminated = False,
      curl_msgs = [], easy_private = (\<lambda>e. None),
      engine = example_engine, os = example_os, trace = []\<rparr>"

definition running_world :: world where
  "running_world = upd_transfer new_implementation 0 (\<lambda>x. x\<lparr>t_running := True\<rparr>)"

definition deferring_world :: world where
  "deferring_world =
     upd_transfer new_implementation 0 (\<lambda>x. x\<lparr>t_running := True, t_callback_recursions := 1\<rparr>)"

definition detached_world :: world where
  "detached_world =
     upd_transfer new_implementation 0
       (\<lambda>x. x\<lparr>t_running := True, t_impl := False, t_callback_recursions := 1\<rparr>)"



definition watching_world :: world where
  "watching_world =
     new_implementation
       \<lparr>socks := (socks new_implementation)
          (0 := \<lparr>s_tcp = True, s_udp = False, s_requested_action = CURL_POLL_INOUT, s_lock = True\<rparr>),
        next_sock := 1,
        i_sockets := [(7, 0)]\<rparr>"

definition terminating_world :: world where
  "terminating_world =
     new_implementation
       \<lparr>xfers := (xfers new_implementation)
          (0 := new_transfer\<lparr>t_handle := Some 0, t_running := True, t_lock := True\<rparr>),
        socks := (socks new_implementation)
          (0 := \<lparr>s_tcp = True, s_udp = False, s_requested_action = CURL_POLL_IN, s_lock = True\<rparr>),
        next_sock := 1,
        i_sockets := [(7, 0)],
        i_transfers := [0]\<rparr>"

definition done_msg :: CURLMsg where
  "done_msg = \<lparr>msg = CURLMSG_DONE, easy_handle = 0, data_result = CURLE_OK\<rparr>"

definition completing_world :: world where
  "completing_world =
     new_implementation
       \<lparr>xfers := (xfers new_implementation)
          (0 := new_transfer\<lparr>on_done := Some (\<lambda>r. [CallRunning 0, CallStart 0 ''again'']),
                              t_handle := Some 0, t_running := True, t_lock := True\<rparr>),
        i_transfers := [0],
        curl_msgs := [done_msg],
        easy_private := (easy_private new_implementation)(0 := Some 0)\<rparr>"



section \<open>Every call of the public interface returns\<close>

text \<open>
  \<^verbatim>\<open>start\<close> reaches \<^verbatim>\<open>add_transfer\<close> only after \<^verbatim>\<open>init\<close> has set the easy handle,
  so the assertion of \<^verbatim>\<open>add_transfer\<close> holds there and application code run from a
  callback always returns.
\<close>

lemma xfers_curl_easy_setopt [simp]: "xfers (curl_easy_setopt w h opt) = xfers w"
  by (simp add: curl_easy_setopt_def log_event_def Let_def split: option.splits curlopt.splits)

lemma init_handle: "init w t = (True, w1) \<Longrightarrow> t_handle (xfers w1 t) \<noteq> None"
  by (auto simp: init_def Let_def curl_easy_reset_def curl_easy_init_def upd_transfer_def
      log_event_def split: option.splits if_splits)

lemma add_transfer_returns:
  "t_handle (xfers w t) \<noteq> None \<Longrightarrow> \<exists>r w'. add_transfer w t = Inr (r, w')"
  by (auto simp: add_transfer_def split: option.splits prod.splits)

lemma start_returns: "\<exists>r w'. start w t url = Inr (r, w')"
proof (cases "t_running (xfers w t) \<or> \<not> t_impl (xfers w t) \<or> t_callback_recursions (xfers w t) > 0")
  case True
  then have "start w t url = Inr (False, w)" by (simp add: start_def)
  then show ?thesis by blast
next
  case guard: False
  obtain ok w1 where i: "init w t = (ok, w1)" by (cases "init w t")
  show ?thesis
  proof (cases ok)
    case False
    with guard i have "start w t url = Inr (False, w1)" by (simp add: start_def)
    then show ?thesis by blast
  next
    case True
    define w3 where "w3 = curl_easy_setopt (upd_transfer w1 t (\<lambda>x. x\<lparr>t_url := url\<rparr>))
      (t_handle (xfers (upd_transfer w1 t (\<lambda>x. x\<lparr>t_url := url\<rparr>)) t))
      (CURLOPT_URL (t_url (xfers (upd_transfer w1 t (\<lambda>x. x\<lparr>t_url := url\<rparr>)) t)))"
    have "t_handle (xfers w3 t) \<noteq> None"
      using init_handle [of w t w1] i True by (simp add: w3_def upd_transfer_def)
    then obtain r w4 where a: "add_transfer w3 t = Inr (r, w4)"
      using add_transfer_returns by blast
    have "start w t url =
        (case add_transfer w3 t of
           Inl e \<Rightarrow> Inl e
         | Inr (added, w4) \<Rightarrow>
             if added then Inr (True, upd_transfer w4 t (\<lambda>x. x\<lparr>t_running := True\<rparr>))
             else Inr (False, w4))"
      using guard i True unfolding start_def w3_def by (simp add: Let_def)
    with a have "start w t url =
        Inr (r, if r then upd_transfer w4 t (\<lambda>x. x\<lparr>t_running := True\<rparr>) else w4)"
      by simp
    then show ?thesis by blast
  qed
qed

lemma call_user_op_returns: "\<exists>w'. call_user_op w c = Inr w'"
proof (cases c)
  case (CallStart t url)
  obtain r w1 where "start w t url = Inr (r, w1)" using start_returns by blast
  with CallStart show ?thesis by simp
next
  case (CallStop t)
  then show ?thesis by (simp split: prod.splits)
next
  case (CallRunning t)
  then show ?thesis by simp
qed

lemma run_callback_returns: "\<exists>w'. run_callback w cs = Inr w'"
proof (induction cs arbitrary: w)
  case Nil
  show ?case by simp
next
  case (Cons c cs)
  obtain w1 where "call_user_op w c = Inr w1" using call_user_op_returns by blast
  with Cons.IH [of w1] show ?case by simp
qed

lemma set_erase_absent: "x \<notin> set xs \<Longrightarrow> set_erase x xs = xs"
  by (induction xs) auto


lemma running_protector_leave [simp]:
  "t_running (xfers (protector_leave w t) t') = t_running (xfers w t')"
  by (simp add: protector_leave_def upd_transfer_def)

section \<open>The trace only grows\<close>

definition grows :: "world \<Rightarrow> world \<Rightarrow> bool" where
  "grows w w' = (\<exists>evs. trace w' = trace w @ evs)"

lemma grows_refl: "grows w w"
  by (simp add: grows_def)

lemma grows_trans: "grows a b \<Longrightarrow> grows b c \<Longrightarrow> grows a c"
  by (auto simp: grows_def)

lemma quiet_grows: "quiet w w' \<Longrightarrow> grows w w'"
  by (auto simp: quiet_def grows_def)

lemma grows_handle_done:
  assumes "handle_done w t r = Inr w'"
  shows "grows w w'"
proof (cases "on_done (xfers w t)")
  case None
  with assms show ?thesis by (auto simp: handle_done_def upd_transfer_def grows_def)
next
  case (Some f)
  with assms obtain w1 where cb: "run_callback (log_event w (EvOnDone t r)) (f r) = Inr w1"
    and w': "w' = upd_transfer w1 t (\<lambda>x. x\<lparr>t_running := False\<rparr>)"
    by (auto simp: handle_done_def split: sum.splits)
  from quiet_grows [OF quiet_run_callback [OF cb]] show ?thesis
    by (auto simp: grows_def w' upd_transfer_def log_event_def)
qed

lemma grows_process_curl_messages:
  "process_curl_messages w = Inr w' \<Longrightarrow> grows w w'"
proof (induction w rule: process_curl_messages.induct)
  case (1 w)
  show ?case
  proof (cases "curl_msgs w")
    case Nil
    with "1.prems" show ?thesis
      by (simp add: process_curl_messages.simps [of w] curl_multi_info_read_def grows_refl)
  next
    case (Cons m ms)
    define w1 where "w1 = w\<lparr>curl_msgs := ms\<rparr>"
    have rd: "curl_multi_info_read w = (Some m, w1)"
      by (simp add: curl_multi_info_read_def Cons w1_def)
    have g1: "grows w w1" by (simp add: grows_def w1_def)
    show ?thesis
    proof (cases "msg m = CURLMSG_DONE")
      case False
      with "1.prems" rd have "process_curl_messages w1 = Inr w'"
        by (simp add: process_curl_messages.simps [of w])
      from "1.IH"(2) [OF rd [symmetric] refl False this] g1 show ?thesis
        by (blast intro: grows_trans)
    next
      case True
      with "1.prems" rd obtain t w2 where fe: "from_easy w1 (easy_handle m) = Some t"
        and hd: "handle_done (snd (remove_transfer w1 t)) t (data_result m) = Inr w2"
        and rest: "process_curl_messages w2 = Inr w'"
        by (auto simp: process_curl_messages.simps [of w] split: option.splits sum.splits)
      have "grows w1 (snd (remove_transfer w1 t))"
        by (rule quiet_grows [OF quiet_remove_transfer])
      moreover have "grows (snd (remove_transfer w1 t)) w2"
        by (rule grows_handle_done [OF hd])
      moreover have "grows w2 w'"
        by (rule "1.IH"(1) [OF rd [symmetric] refl True fe hd rest])
      ultimately show ?thesis using g1 by (blast intro: grows_trans)
    qed
  qed
qed

section \<open>Calls on a constructed \<^verbatim>\<open>socketinfo\<close>\<close>

text \<open>Both constructors of \<^verbatim>\<open>socketinfo\<close> set one of \<^verbatim>\<open>tcp_\<close> and \<^verbatim>\<open>udp_\<close>.\<close>

lemma socks_log_event [simp]: "socks (log_event w e) = socks w"
  by (simp add: log_event_def)

lemma socketinfo_cancel_bound:
  "s_tcp (socks w p) \<or> s_udp (socks w p) \<Longrightarrow> socketinfo_cancel w p = log_event w (EvSocketCancel p)"
  by (auto simp: socketinfo_cancel_def)

lemma async_wait_read_bound:
  "s_tcp (socks w p) \<or> s_udp (socks w p)
   \<Longrightarrow> async_wait_read w p s a = log_event w (EvAsyncWaitRead p s a)"
  by (auto simp: async_wait_read_def)

lemma async_wait_write_bound:
  "s_tcp (socks w p) \<or> s_udp (socks w p)
   \<Longrightarrow> async_wait_write w p s a = log_event w (EvAsyncWaitWrite p s a)"
  by (auto simp: async_wait_write_def)

lemma log_event_single: "log_event w e = w\<lparr>trace := trace w @ [e]\<rparr>"
  by (simp add: log_event_def)

section \<open>The loops of \<^verbatim>\<open>implementation::terminate\<close> and the guard of the bridge\<close>

lemma foldl_cancel_frame:
  "xfers (foldl (\<lambda>v it. socketinfo_cancel v (snd it)) w kvs) = xfers w \<and>
   socks (foldl (\<lambda>v it. socketinfo_cancel v (snd it)) w kvs) = socks w \<and>
   i_transfers (foldl (\<lambda>v it. socketinfo_cancel v (snd it)) w kvs) = i_transfers w \<and>
   i_terminated (foldl (\<lambda>v it. socketinfo_cancel v (snd it)) w kvs) = i_terminated w"
  by (induction kvs arbitrary: w) (simp_all add: socketinfo_cancel_def log_event_def)

lemma foldl_cancel_trace:
  "\<forall>it \<in> set kvs. s_tcp (socks w (snd it)) \<or> s_udp (socks w (snd it)) \<Longrightarrow>
   trace (foldl (\<lambda>v it. socketinfo_cancel v (snd it)) w kvs) =
     trace w @ map (\<lambda>it. EvSocketCancel (snd it)) kvs"
proof (induction kvs arbitrary: w)
  case Nil
  show ?case by simp
next
  case (Cons kv kvs)
  have c: "socketinfo_cancel w (snd kv) = log_event w (EvSocketCancel (snd kv))"
    using Cons.prems by (simp add: socketinfo_cancel_bound)
  have "\<forall>it \<in> set kvs. s_tcp (socks (log_event w (EvSocketCancel (snd kv))) (snd it)) \<or>
      s_udp (socks (log_event w (EvSocketCancel (snd kv))) (snd it))"
    using Cons.prems by simp
  from Cons.IH [OF this] show ?case
    by (simp add: c log_event_def)
qed

lemma foldl_terminate_frame:
  "socks (foldl transfer_terminate w ts) = socks w \<and>
   trace (foldl transfer_terminate w ts) = trace w \<and>
   i_sockets (foldl transfer_terminate w ts) = i_sockets w \<and>
   i_terminated (foldl transfer_terminate w ts) = i_terminated w"
  by (induction ts arbitrary: w) (simp_all add: transfer_terminate_def upd_transfer_def)

lemma foldl_terminate_xfers:
  "xfers (foldl transfer_terminate w ts) t =
     (if t \<in> set ts then (xfers w t)\<lparr>t_impl := False\<rparr> else xfers w t)"
  by (induction ts arbitrary: w) (auto simp: transfer_terminate_def upd_transfer_def)

lemma terminating_world_facts:
  "\<not> i_terminated terminating_world"
  "i_sockets terminating_world = [(7, 0)]"
  "i_transfers terminating_world = [0]"
  "trace terminating_world = []"
  "s_tcp (socks terminating_world 0)"
  "s_lock (socks terminating_world 0)"
  "t_lock (xfers terminating_world 0)"
  by (simp_all add: terminating_world_def new_implementation_def new_transfer_def)

lemma impl_protector_leave_enter [simp]: "impl_protector_leave (impl_protector_enter w) = w"
  by (simp add: impl_protector_leave_def impl_protector_enter_def)

lemma os_impl_protector_enter [simp]: "os (impl_protector_enter w) = os w"
  by (simp add: impl_protector_enter_def)

lemma i_sockets_impl_protector_enter [simp]: "i_sockets (impl_protector_enter w) = i_sockets w"
  by (simp add: impl_protector_enter_def)

section \<open>Dispatch of completion messages\<close>

lemma handle_done_returns: "\<exists>w'. handle_done w t r = Inr w'"
proof (cases "on_done (xfers w t)")
  case None
  then show ?thesis by (simp add: handle_done_def)
next
  case (Some f)
  obtain w1 where "run_callback (log_event w (EvOnDone t r)) (f r) = Inr w1"
    using run_callback_returns by blast
  with Some show ?thesis by (simp add: handle_done_def)
qed

lemma handle_done_fires:
  assumes "handle_done w t r = Inr w'"
  shows "filter is_on_done (trace w') =
           filter is_on_done (trace w) @
             (case on_done (xfers w t) of None \<Rightarrow> [] | Some f \<Rightarrow> [EvOnDone t r])"
    and "\<not> t_running (xfers w' t)"
proof -
  show "\<not> t_running (xfers w' t)"
    using assms by (auto simp: handle_done_def upd_transfer_def split: option.splits sum.splits)
  show "filter is_on_done (trace w') =
           filter is_on_done (trace w) @
             (case on_done (xfers w t) of None \<Rightarrow> [] | Some f \<Rightarrow> [EvOnDone t r])"
  proof (cases "on_done (xfers w t)")
    case None
    with assms show ?thesis by (auto simp: handle_done_def upd_transfer_def)
  next
    case (Some f)
    with assms obtain w1 where cb: "run_callback (log_event w (EvOnDone t r)) (f r) = Inr w1"
      and w': "w' = upd_transfer w1 t (\<lambda>x. x\<lparr>t_running := False\<rparr>)"
      by (auto simp: handle_done_def split: sum.splits)
    from quiet_run_callback [OF cb] obtain evs where
      "trace w1 = trace (log_event w (EvOnDone t r)) @ evs" "filter is_on_done evs = []"
      by (auto simp: quiet_def)
    then show ?thesis by (simp add: Some w' upd_transfer_def log_event_def)
  qed
qed

lemma remove_transfer_frame:
  "trace (snd (remove_transfer w t)) = trace w @ [EvMultiRemoveHandle (t_handle (xfers w t))]"
  "on_done (xfers (snd (remove_transfer w t)) t') = on_done (xfers w t')"
  "t_running (xfers (snd (remove_transfer w t)) t') = t_running (xfers w t')"
  by (simp_all add: remove_transfer_def curl_multi_remove_handle_def unlock_def upd_transfer_def
      log_event_def)

lemma from_easy_curl_msgs [simp]: "from_easy (w\<lparr>curl_msgs := ms\<rparr>) e = from_easy w e"
  by (simp add: from_easy_def)


lemma process_single_completion:
  assumes a: "curl_msgs w = [m] \<and> msg m = CURLMSG_DONE \<and> from_easy w (easy_handle m) = Some t"
  shows "\<exists>w'. process_curl_messages w = Inr w' \<and>
         filter is_on_done (trace w') =
           filter is_on_done (trace w) @
             (case on_done (xfers w t) of None \<Rightarrow> [] | Some f \<Rightarrow> [EvOnDone t (data_result m)]) \<and>
         EvMultiRemoveHandle (t_handle (xfers w t)) \<in> set (trace w') \<and>
         \<not> running w' t"
proof -
  define w1 where "w1 = w\<lparr>curl_msgs := []\<rparr>"
  define w1' where "w1' = snd (remove_transfer w1 t)"
  obtain w2 where h: "handle_done w1' t (data_result m) = Inr w2"
    using handle_done_returns by blast
  have rd: "curl_multi_info_read w = (Some m, w1)"
    using a by (simp add: curl_multi_info_read_def w1_def)
  have "curl_msgs w2 = []"
    using handle_done_msgs [OF h] quiet_remove_transfer [of w1 t]
    by (simp add: quiet_def w1_def w1'_def)
  then have last: "process_curl_messages w2 = Inr w2"
    by (simp add: process_curl_messages.simps [of w2] curl_multi_info_read_def)
  have p: "process_curl_messages w = Inr w2"
    using a rd h last
    by (simp add: process_curl_messages.simps [of w] w1_def w1'_def)
  have tr: "trace w1' = trace w @ [EvMultiRemoveHandle (t_handle (xfers w t))]"
    by (simp add: w1'_def remove_transfer_frame w1_def)
  have od: "on_done (xfers w1' t) = on_done (xfers w t)"
    by (simp add: w1'_def remove_transfer_frame w1_def)
  have "EvMultiRemoveHandle (t_handle (xfers w t)) \<in> set (trace w2)"
    using grows_handle_done [OF h] tr by (auto simp: grows_def)
  with p handle_done_fires [OF h] tr od show ?thesis
    by (simp add: running_def)
qed

lemma completing_world_facts:
  "curl_msgs completing_world = [done_msg]"
  "msg done_msg = CURLMSG_DONE"
  "easy_handle done_msg = 0"
  "data_result done_msg = CURLE_OK"
  "from_easy completing_world 0 = Some 0"
  "on_done (xfers completing_world 0) = Some (\<lambda>r. [CallRunning 0, CallStart 0 ''again''])"
  "t_handle (xfers completing_world 0) = Some 0"
  "t_running (xfers completing_world 0)"
  "trace completing_world = []"
  by (simp_all add: completing_world_def done_msg_def new_implementation_def new_transfer_def
      from_easy_def example_engine_def CURLE_OK_def)

section \<open>Which transfer a completion message names\<close>
































section \<open>Properties\<close>

subsection \<open>\<^verbatim>\<open>implementation::process_curl_messages\<close> and \<^verbatim>\<open>transfer::handle_done\<close>\<close>




text \<open>
  C2: when \<^verbatim>\<open>process_curl_messages\<close> dispatches a completion, the call of
  \<^verbatim>\<open>curl_multi_remove_handle\<close> and the firing of \<^verbatim>\<open>on_done\<close> are next to each other
  in the sequence of calls: no application code runs between them, so \<^verbatim>\<open>on_done\<close>
  fires before anything outside the bridge can see the transfer as removed. Inside
  \<^verbatim>\<open>on_done\<close> the transfer still answers \<^verbatim>\<open>running()\<close> as before the removal; the
  flag is false once the dispatch is over.
\<close>

theorem on_done_precedes_observable_removal:
  assumes q: "curl_msgs w = m # ms" and d: "msg m = CURLMSG_DONE"
    and fe: "from_easy w (easy_handle m) = Some t"
    and od: "on_done (xfers w t) = Some f"
    and p: "process_curl_messages w = Inr w'"
  shows "(\<exists>evs. trace w' =
            trace w @ [EvMultiRemoveHandle (t_handle (xfers w t)), EvOnDone t (data_result m)] @ evs) \<and>
         (\<forall>ops. f (data_result m) = CallRunning t # ops \<longrightarrow>
            (\<exists>evs. trace w' =
               trace w @ [EvMultiRemoveHandle (t_handle (xfers w t)), EvOnDone t (data_result m),
                          EvRunningReturned t (running w t)] @ evs)) \<and>
         (ms = [] \<longrightarrow> \<not> running w' t)"
proof -
  define w1 where "w1 = snd (remove_transfer (w\<lparr>curl_msgs := ms\<rparr>) t)"
  define w2 where "w2 = log_event w1 (EvOnDone t (data_result m))"
  have rd: "curl_multi_info_read w = (Some m, w\<lparr>curl_msgs := ms\<rparr>)"
    using q by (simp add: curl_multi_info_read_def)
  have tr1: "trace w1 = trace w @ [EvMultiRemoveHandle (t_handle (xfers w t))]"
    and od1: "on_done (xfers w1 t) = Some f"
    and run1: "t_running (xfers w1 t) = t_running (xfers w t)"
    using od by (simp_all add: w1_def remove_transfer_frame)
  from p rd d fe obtain w3 where hd: "handle_done w1 t (data_result m) = Inr w3"
    and rest: "process_curl_messages w3 = Inr w'"
    by (auto simp: process_curl_messages.simps [of w] w1_def split: sum.splits)
  from hd od1 obtain w4 where cb: "run_callback w2 (f (data_result m)) = Inr w4"
    and w3: "w3 = upd_transfer w4 t (\<lambda>x. x\<lparr>t_running := False\<rparr>)"
    by (auto simp: handle_done_def w2_def split: sum.splits)
  have tr2: "trace w2 = trace w @ [EvMultiRemoveHandle (t_handle (xfers w t)), EvOnDone t (data_result m)]"
    by (simp add: w2_def log_event_def tr1)
  have g3: "grows w4 w'"
    using grows_process_curl_messages [OF rest] by (simp add: grows_def w3 upd_transfer_def)
  have first: "\<exists>evs. trace w' =
      trace w @ [EvMultiRemoveHandle (t_handle (xfers w t)), EvOnDone t (data_result m)] @ evs"
    using quiet_grows [OF quiet_run_callback [OF cb]] g3 tr2 by (auto simp: grows_def)
  have second: "\<exists>evs. trace w' =
               trace w @ [EvMultiRemoveHandle (t_handle (xfers w t)), EvOnDone t (data_result m),
                          EvRunningReturned t (running w t)] @ evs"
    if ops: "f (data_result m) = CallRunning t # ops" for ops
  proof -
    define w5 where "w5 = log_event w2 (EvRunningReturned t (running w2 t))"
    have r2: "running w2 t = running w t"
      by (simp add: running_def w2_def log_event_def run1)
    have "run_callback w5 ops = Inr w4"
      using cb ops by (simp add: w5_def)
    from quiet_grows [OF quiet_run_callback [OF this]] g3
    show ?thesis by (auto simp: grows_def w5_def log_event_def tr2 r2)
  qed
  have third: "\<not> running w' t" if "ms = []"
  proof -
    have "curl_msgs w3 = []"
      using handle_done_msgs [OF hd] quiet_remove_transfer [of "w\<lparr>curl_msgs := ms\<rparr>" t] that
      by (simp add: quiet_def w1_def)
    then have "process_curl_messages w3 = Inr w3"
      by (simp add: process_curl_messages.simps [of w3] curl_multi_info_read_def)
    with rest have "w' = w3" by simp
    then show ?thesis by (simp add: running_def w3 upd_transfer_def)
  qed
  from first second third show ?thesis by blast
qed

theorem on_done_precedes_observable_removal_witness:
  "curl_msgs completing_world = done_msg # [] \<and> msg done_msg = CURLMSG_DONE \<and>
   from_easy completing_world (easy_handle done_msg) = Some 0 \<and>
   on_done (xfers completing_world 0) = Some (\<lambda>r. [CallRunning 0, CallStart 0 ''again'']) \<and>
   (\<exists>w'. process_curl_messages completing_world = Inr w' \<and>
      (\<exists>evs. trace w' =
         trace completing_world @
           [EvMultiRemoveHandle (Some 0), EvOnDone 0 CURLE_OK, EvRunningReturned 0 True] @ evs) \<and>
      \<not> running w' 0)"
proof -
  have q: "curl_msgs completing_world = done_msg # []"
    and fe: "from_easy completing_world (easy_handle done_msg) = Some 0"
    and r: "running completing_world 0"
    by (simp_all add: completing_world_facts running_def)
  have "curl_msgs completing_world = [done_msg] \<and> msg done_msg = CURLMSG_DONE \<and>
      from_easy completing_world (easy_handle done_msg) = Some 0"
    by (simp add: completing_world_facts)
  then obtain w' where p: "process_curl_messages completing_world = Inr w'"
    using process_single_completion by blast
  from on_done_precedes_observable_removal
    [OF q completing_world_facts(2) fe completing_world_facts(6) p] r
  have "(\<exists>evs. trace w' =
         trace completing_world @
           [EvMultiRemoveHandle (Some 0), EvOnDone 0 CURLE_OK, EvRunningReturned 0 True] @ evs) \<and>
      \<not> running w' 0"
    by (simp add: completing_world_facts)
  with p q fe completing_world_facts(2,6) show ?thesis by blast
qed

subsection \<open>\<^verbatim>\<open>transfer::start\<close>\<close>

text \<open>
  C4: \<^verbatim>\<open>start(url)\<close> returns false and changes nothing (the transfer, the active set,
  the engine and the trace of calls are all as before) whenever the transfer is already
  running, or its bridge reference is gone, or its callback recursion counter is above zero.
\<close>

theorem start_refused:
  "t_running (xfers w t) \<or> \<not> t_impl (xfers w t) \<or> t_callback_recursions (xfers w t) > 0
   \<Longrightarrow> start w t url = Inr (False, w)"
  by (simp add: start_def)

theorem start_refused_witness:
  "t_running (xfers running_world 0) \<and>
   start running_world 0 ''http://example.org/'' = Inr (False, running_world) \<and>
   \<not> t_impl (xfers (transfer_terminate new_implementation 0) 0) \<and>
   start (transfer_terminate new_implementation 0) 0 ''http://example.org/'' =
     Inr (False, transfer_terminate new_implementation 0) \<and>
   t_callback_recursions (xfers (protector_enter new_implementation 0) 0) > 0 \<and>
   start (protector_enter new_implementation 0) 0 ''http://example.org/'' =
     Inr (False, protector_enter new_implementation 0)"
proof -
  have a: "t_running (xfers running_world 0)"
    by (simp add: running_world_def upd_transfer_def)
  have b: "\<not> t_impl (xfers (transfer_terminate new_implementation 0) 0)"
    by (simp add: transfer_terminate_def upd_transfer_def)
  have c: "t_callback_recursions (xfers (protector_enter new_implementation 0) 0) > 0"
    by (simp add: protector_enter_def upd_transfer_def new_implementation_def new_transfer_def)
  from a b c start_refused [of running_world 0 "''http://example.org/''"]
    start_refused [of "transfer_terminate new_implementation 0" 0 "''http://example.org/''"]
    start_refused [of "protector_enter new_implementation 0" 0 "''http://example.org/''"]
  show ?thesis by blast
qed

subsection \<open>\<^verbatim>\<open>transfer::stop\<close>\<close>

text \<open>
  C5, as the source has it: for a running transfer whose bridge reference is present,
  \<^verbatim>\<open>stop()\<close> called with the recursion counter above zero returns true and only clears
  the running flag (no call into the engine, the active set and the self-reference as
  before), so \<^verbatim>\<open>running()\<close> is false right after; with the counter at zero it calls
  \<^verbatim>\<open>remove_transfer\<close> at once, returns its answer, and clears the flag when that
  succeeded.
\<close>

theorem stop_deferred_or_immediate:
  assumes "t_running (xfers w t)" and "t_impl (xfers w t)"
  shows "(t_callback_recursions (xfers w t) > 0 \<longrightarrow>
            stop w t = (True, upd_transfer w t (\<lambda>x. x\<lparr>t_running := False\<rparr>)) \<and>
            \<not> running (snd (stop w t)) t) \<and>
         (t_callback_recursions (xfers w t) = 0 \<longrightarrow>
            trace (snd (stop w t)) = trace w @ [EvMultiRemoveHandle (t_handle (xfers w t))] \<and>
            fst (stop w t) = fst (remove_transfer w t) \<and>
            (fst (stop w t) \<longrightarrow>
               \<not> running (snd (stop w t)) t \<and>
               i_transfers (snd (stop w t)) = set_erase t (i_transfers w) \<and>
               (t \<in> set (i_transfers w) \<longrightarrow> \<not> t_lock (xfers (snd (stop w t)) t))) \<and>
            (\<not> fst (stop w t) \<longrightarrow> running (snd (stop w t)) t))"
proof -
  have deferred: "stop w t = (True, upd_transfer w t (\<lambda>x. x\<lparr>t_running := False\<rparr>))"
    if "t_callback_recursions (xfers w t) > 0"
    using assms that by (simp add: stop_def)
  have deferred_flag: "\<not> running (upd_transfer w t (\<lambda>x. x\<lparr>t_running := False\<rparr>)) t"
    by (simp add: running_def upd_transfer_def)
  have immediate: "stop w t =
      (if fst (remove_transfer w t)
       then (True, upd_transfer (snd (remove_transfer w t)) t (\<lambda>x. x\<lparr>t_running := False\<rparr>))
       else (False, snd (remove_transfer w t)))"
    if "t_callback_recursions (xfers w t) = 0"
    using assms that by (simp add: stop_def split: prod.splits)
  have rt_trace: "trace (snd (remove_transfer w t)) = trace w @ [EvMultiRemoveHandle (t_handle (xfers w t))]"
    by (simp add: remove_transfer_def curl_multi_remove_handle_def unlock_def upd_transfer_def log_event_def)
  have rt_set: "fst (remove_transfer w t) \<Longrightarrow>
      i_transfers (snd (remove_transfer w t)) = set_erase t (i_transfers w)"
    by (simp add: remove_transfer_def curl_multi_remove_handle_def unlock_def upd_transfer_def
        log_event_def set_erase_absent split: if_splits)
  have rt_lock: "fst (remove_transfer w t) \<Longrightarrow> t \<in> set (i_transfers w) \<Longrightarrow>
      \<not> t_lock (xfers (snd (remove_transfer w t)) t)"
    by (simp add: remove_transfer_def curl_multi_remove_handle_def unlock_def upd_transfer_def
        log_event_def split: if_splits)
  have rt_running: "t_running (xfers (snd (remove_transfer w t)) t) = t_running (xfers w t)"
    by (simp add: remove_transfer_def curl_multi_remove_handle_def unlock_def upd_transfer_def
        log_event_def)
  show ?thesis
    using deferred deferred_flag immediate rt_trace rt_set rt_lock rt_running assms(1)
    by (simp add: running_def upd_transfer_def)
qed

theorem stop_deferred_or_immediate_witness:
  "t_running (xfers deferring_world 0) \<and> t_impl (xfers deferring_world 0) \<and>
   stop deferring_world 0 =
     (True, upd_transfer deferring_world 0 (\<lambda>x. x\<lparr>t_running := False\<rparr>)) \<and>
   \<not> running (snd (stop deferring_world 0)) 0 \<and>
   t_running (xfers terminating_world 0) \<and> t_impl (xfers terminating_world 0) \<and>
   t_callback_recursions (xfers terminating_world 0) = 0 \<and>
   fst (stop terminating_world 0) \<and>
   trace (snd (stop terminating_world 0)) = trace terminating_world @ [EvMultiRemoveHandle (Some 0)] \<and>
   \<not> running (snd (stop terminating_world 0)) 0 \<and>
   i_transfers (snd (stop terminating_world 0)) = [] \<and>
   \<not> t_lock (xfers (snd (stop terminating_world 0)) 0)"
proof -
  have r: "t_running (xfers deferring_world 0)"
    and i: "t_impl (xfers deferring_world 0)"
    and c: "t_callback_recursions (xfers deferring_world 0) > 0"
    by (simp_all add: deferring_world_def upd_transfer_def new_implementation_def new_transfer_def)
  have r': "t_running (xfers terminating_world 0)"
    and i': "t_impl (xfers terminating_world 0)"
    and c': "t_callback_recursions (xfers terminating_world 0) = 0"
    and h': "t_handle (xfers terminating_world 0) = Some 0"
    and s': "i_transfers terminating_world = [0]"
    by (simp_all add: terminating_world_def new_implementation_def new_transfer_def)
  have ok: "fst (remove_transfer terminating_world 0)"
    by (simp add: remove_transfer_def curl_multi_remove_handle_def terminating_world_def
        new_implementation_def new_transfer_def example_engine_def CURLM_OK_def log_event_def)
  from stop_deferred_or_immediate [OF r i] c r i
  have d: "stop deferring_world 0 =
     (True, upd_transfer deferring_world 0 (\<lambda>x. x\<lparr>t_running := False\<rparr>)) \<and>
   \<not> running (snd (stop deferring_world 0)) 0"
    by blast
  from stop_deferred_or_immediate [OF r' i'] c' ok
  have "fst (stop terminating_world 0) \<and>
   trace (snd (stop terminating_world 0)) = trace terminating_world @ [EvMultiRemoveHandle (Some 0)] \<and>
   \<not> running (snd (stop terminating_world 0)) 0 \<and>
   i_transfers (snd (stop terminating_world 0)) = [] \<and>
   \<not> t_lock (xfers (snd (stop terminating_world 0)) 0)"
    by (simp add: h' s')
  with d r i r' i' c' show ?thesis by blast
qed


text \<open>
  C5 as stated does not hold for every running transfer: when the bridge reference is gone
  (\<^verbatim>\<open>implementation::terminate\<close> resets it and leaves the running flag), \<^verbatim>\<open>stop()\<close>
  returns false and the flag stays true, also with the counter above zero.
\<close>

theorem stop_deferred_counterexample:
  "t_running (xfers detached_world 0) \<and> 0 < t_callback_recursions (xfers detached_world 0) \<and>
   fst (stop detached_world 0) = False \<and> running (snd (stop detached_world 0)) 0"
  by (simp add: detached_world_def upd_transfer_def new_implementation_def new_transfer_def
      stop_def running_def)

subsection \<open>\<^verbatim>\<open>transfer::write_function\<close>\<close>

text \<open>
  C10: a chunk delivered to a transfer without \<^verbatim>\<open>on_data_read\<close>, or whose bridge
  reference has been released, is answered with the full chunk size; nothing else happens:
  the classifier is not called, the recursion counter is not touched, the state is as
  before.
\<close>

theorem write_function_discards:
  "on_data_read (xfers w t) = None \<or> \<not> t_impl (xfers w t)
   \<Longrightarrow> write_function w t buf = Inr (snd buf, w)"
  by (auto simp: write_function_def split: option.splits bool.splits)

theorem write_function_discards_witness:
  "on_data_read (xfers new_implementation 0) = None \<and>
   write_function new_implementation 0 ([1, 2, 3], 3) = Inr (3, new_implementation)"
  using write_function_discards [of new_implementation 0 "([1, 2, 3], 3)"]
  by (simp add: new_implementation_def new_transfer_def)





subsection \<open>\<^verbatim>\<open>implementation::timer_function\<close>\<close>

text \<open>
  C7: \<^verbatim>\<open>timer_function\<close> cancels the timer first. For a positive timeout it sets the
  expiry that many milliseconds ahead, starts the wait for \<^verbatim>\<open>timer_handler\<close>, drives
  nothing and returns 0. For a timeout of zero or less it is \<^verbatim>\<open>timer_handler\<close> with
  no error, run inline: whenever the call returns, it returns 0 and the drive
  \<^verbatim>\<open>curl_multi_socket_action(CURL_SOCKET_TIMEOUT, 0)\<close> stands in the trace right
  after the cancellation; and it does return when no completion message is waiting.
\<close>

theorem timer_function_schedules_or_runs:
  "(timeout_ms > 0 \<longrightarrow>
      timer_function w timeout_ms =
        Inr (0, w\<lparr>trace := trace w @
                  [EvTimerCancel, EvTimerExpiresFromNow timeout_ms, EvTimerAsyncWait]\<rparr>)) \<and>
   (timeout_ms \<le> 0 \<longrightarrow>
      timer_function w timeout_ms =
        (case timer_handler (timer_cancel w) False of
           Inl e \<Rightarrow> Inl e
         | Inr w2 \<Rightarrow> Inr (0, w2)) \<and>
      (\<forall>r w'. timer_function w timeout_ms = Inr (r, w') \<longrightarrow>
         r = 0 \<and>
         (\<exists>evs. trace w' =
            trace w @ [EvTimerCancel, EvMultiSocketAction CURL_SOCKET_TIMEOUT 0] @ evs)) \<and>
      (curl_msgs w = [] \<and>
       snd (snd (curl_multi_socket_action_result (engine w) (trace w @ [EvTimerCancel])
                   CURL_SOCKET_TIMEOUT 0)) = [] \<longrightarrow>
         (\<exists>w'. timer_function w timeout_ms = Inr (0, w') \<and>
            trace w' = trace w @ [EvTimerCancel, EvMultiSocketAction CURL_SOCKET_TIMEOUT 0])))"
proof -
  define w1 where "w1 = impl_protector_enter (timer_cancel w)"
  obtain rc k ms where res:
    "curl_multi_socket_action_result (engine w) (trace w @ [EvTimerCancel]) CURL_SOCKET_TIMEOUT 0
       = (rc, k, ms)"
    by (cases "curl_multi_socket_action_result (engine w) (trace w @ [EvTimerCancel]) CURL_SOCKET_TIMEOUT 0")
  define w2 where "w2 = (log_event w1 (EvMultiSocketAction CURL_SOCKET_TIMEOUT 0))
                           \<lparr>i_running := k, curl_msgs := curl_msgs w1 @ ms\<rparr>"
  have drive: "curl_multi_socket_action w1 CURL_SOCKET_TIMEOUT 0 = (rc, w2)"
    using res
    by (simp add: curl_multi_socket_action_def w1_def w2_def impl_protector_enter_def
        timer_cancel_def log_event_def)
  have tr2: "trace w2 = trace w @ [EvTimerCancel, EvMultiSocketAction CURL_SOCKET_TIMEOUT 0]"
    by (simp add: w2_def w1_def impl_protector_enter_def timer_cancel_def log_event_def)
  have handler: "timer_handler (timer_cancel w) False =
      (if rc \<le> CURLM_OK then
         (case process_curl_messages w2 of
            Inl e \<Rightarrow> Inl e
          | Inr w3 \<Rightarrow> Inr (impl_protector_leave w3))
       else Inr (impl_protector_leave w2))"
    using drive by (simp add: timer_handler_def w1_def)
  have sched: "timer_function w timeout_ms =
        Inr (0, w\<lparr>trace := trace w @
                  [EvTimerCancel, EvTimerExpiresFromNow timeout_ms, EvTimerAsyncWait]\<rparr>)"
    if "timeout_ms > 0"
    using that by (simp add: timer_function_def Let_def timer_cancel_def log_event_def)
  have inline: "timer_function w timeout_ms =
        (case timer_handler (timer_cancel w) False of
           Inl e \<Rightarrow> Inl e
         | Inr w2 \<Rightarrow> Inr (0, w2))"
    if "timeout_ms \<le> 0"
    using that by (simp add: timer_function_def Let_def)
  have driven: "r = 0 \<and> (\<exists>evs. trace w' =
            trace w @ [EvTimerCancel, EvMultiSocketAction CURL_SOCKET_TIMEOUT 0] @ evs)"
    if "timeout_ms \<le> 0" and ret: "timer_function w timeout_ms = Inr (r, w')" for r w'
  proof (cases "rc \<le> CURLM_OK")
    case False
    with ret inline [OF that(1)] handler tr2 show ?thesis
      by (auto simp: impl_protector_leave_def)
  next
    case True
    with ret inline [OF that(1)] handler obtain w3 where
      p: "process_curl_messages w2 = Inr w3" and w': "w' = impl_protector_leave w3" and r: "r = 0"
      by (auto split: sum.splits)
    from grows_process_curl_messages [OF p] tr2 r show ?thesis
      by (auto simp: grows_def w' impl_protector_leave_def)
  qed
  have idle: "\<exists>w'. timer_function w timeout_ms = Inr (0, w') \<and>
            trace w' = trace w @ [EvTimerCancel, EvMultiSocketAction CURL_SOCKET_TIMEOUT 0]"
    if "timeout_ms \<le> 0" "curl_msgs w = []" "ms = []"
  proof -
    have "curl_msgs w2 = []"
      using that by (simp add: w2_def w1_def impl_protector_enter_def timer_cancel_def log_event_def)
    then have "process_curl_messages w2 = Inr w2"
      by (simp add: process_curl_messages.simps [of w2] curl_multi_info_read_def)
    with inline [OF that(1)] handler tr2 show ?thesis
      by (auto simp: impl_protector_leave_def)
  qed
  show ?thesis
  proof (intro conjI impI)
    assume "timeout_ms > 0"
    then show "timer_function w timeout_ms =
        Inr (0, w\<lparr>trace := trace w @
                  [EvTimerCancel, EvTimerExpiresFromNow timeout_ms, EvTimerAsyncWait]\<rparr>)"
      by (rule sched)
  next
    assume "timeout_ms \<le> 0"
    then show "timer_function w timeout_ms =
        (case timer_handler (timer_cancel w) False of
           Inl e \<Rightarrow> Inl e
         | Inr w2 \<Rightarrow> Inr (0, w2))"
      by (rule inline)
  next
    assume le: "timeout_ms \<le> 0"
    show "\<forall>r w'. timer_function w timeout_ms = Inr (r, w') \<longrightarrow>
         r = 0 \<and>
         (\<exists>evs. trace w' =
            trace w @ [EvTimerCancel, EvMultiSocketAction CURL_SOCKET_TIMEOUT 0] @ evs)"
      using driven [OF le] by blast
  next
    assume le: "timeout_ms \<le> 0"
      and q: "curl_msgs w = [] \<and>
       snd (snd (curl_multi_socket_action_result (engine w) (trace w @ [EvTimerCancel])
                   CURL_SOCKET_TIMEOUT 0)) = []"
    show "\<exists>w'. timer_function w timeout_ms = Inr (0, w') \<and>
            trace w' = trace w @ [EvTimerCancel, EvMultiSocketAction CURL_SOCKET_TIMEOUT 0]"
      using idle [OF le] q res by simp
  qed
qed

theorem timer_function_schedules_or_runs_witness:
  "timer_function new_implementation 250 =
     Inr (0, new_implementation\<lparr>trace := trace new_implementation @
               [EvTimerCancel, EvTimerExpiresFromNow 250, EvTimerAsyncWait]\<rparr>) \<and>
   (\<exists>w'. timer_function new_implementation 0 = Inr (0, w') \<and>
      trace w' = trace new_implementation @
                   [EvTimerCancel, EvMultiSocketAction CURL_SOCKET_TIMEOUT 0])"
proof -
  have e: "curl_msgs new_implementation = [] \<and>
       snd (snd (curl_multi_socket_action_result (engine new_implementation)
                   (trace new_implementation @ [EvTimerCancel]) CURL_SOCKET_TIMEOUT 0)) = []"
    by (simp add: new_implementation_def example_engine_def)
  have p: "(250::int) > 0" "(0::int) \<le> 0" by simp_all
  from timer_function_schedules_or_runs [of 250 new_implementation]
    timer_function_schedules_or_runs [of 0 new_implementation] e p
  show ?thesis by blast
qed

subsection \<open>\<^verbatim>\<open>implementation::async_wait\<close>\<close>

text \<open>
  C8: let \<open>req\<close> be the direction the \<^verbatim>\<open>socketinfo\<close> was last asked for. When \<open>req\<close>
  is \<^verbatim>\<open>CURL_POLL_INOUT\<close>, or differs from \<open>action\<close> and is not \<^verbatim>\<open>CURL_POLL_NONE\<close>,
  \<^verbatim>\<open>async_wait\<close> cancels the waits on the socket and goes on with \<open>req\<close> in place of
  \<open>action\<close>. It then starts one read wait if the bit \<^verbatim>\<open>CURL_POLL_IN\<close> of that direction
  is set and one write wait if the bit \<^verbatim>\<open>CURL_POLL_OUT\<close> is set, each bound to
  \<^verbatim>\<open>async_wait_complete\<close> with the descriptor and its own direction. Nothing else
  changes.
\<close>

theorem async_wait_subscribes:
  assumes bound: "s_tcp (socks w p) \<or> s_udp (socks w p)"
    and req: "req = requested_action w p"
    and merge: "merge = (req = CURL_POLL_INOUT \<or> (req \<noteq> action \<and> req \<noteq> CURL_POLL_NONE))"
    and effective: "effective = (if merge then req else action)"
  shows "async_wait w s action p =
           w\<lparr>trace := trace w @
                (if merge then [EvSocketCancel p] else []) @
                (if effective AND CURL_POLL_IN \<noteq> 0 then [EvAsyncWaitRead p s CURL_POLL_IN] else []) @
                (if effective AND CURL_POLL_OUT \<noteq> 0 then [EvAsyncWaitWrite p s CURL_POLL_OUT] else [])\<rparr>"
proof -
  define w1 where "w1 = (if merge then socketinfo_cancel w p else w)"
  define w2 where "w2 = (if effective AND CURL_POLL_IN \<noteq> 0 then async_wait_read w1 p s CURL_POLL_IN else w1)"
  define w3 where "w3 = (if effective AND CURL_POLL_OUT \<noteq> 0 then async_wait_write w2 p s CURL_POLL_OUT else w2)"
  have unf: "async_wait w s action p = w3"
    unfolding async_wait_def Let_def w3_def w2_def w1_def effective merge req ..
  have e1: "w1 = w\<lparr>trace := trace w @ (if merge then [EvSocketCancel p] else [])\<rparr>"
    using bound by (simp add: w1_def socketinfo_cancel_bound log_event_single)
  have s1: "s_tcp (socks w1 p) \<or> s_udp (socks w1 p)"
    using bound by (simp add: e1)
  have e2: "w2 = w1\<lparr>trace := trace w1 @
       (if effective AND CURL_POLL_IN \<noteq> 0 then [EvAsyncWaitRead p s CURL_POLL_IN] else [])\<rparr>"
    using s1 by (simp add: w2_def async_wait_read_bound log_event_single)
  have s2: "s_tcp (socks w2 p) \<or> s_udp (socks w2 p)"
    using s1 by (simp add: e2)
  have e3: "w3 = w2\<lparr>trace := trace w2 @
       (if effective AND CURL_POLL_OUT \<noteq> 0 then [EvAsyncWaitWrite p s CURL_POLL_OUT] else [])\<rparr>"
    using s2 by (simp add: w3_def async_wait_write_bound log_event_single)
  show ?thesis
    unfolding unf by (simp add: e3 e2 e1)
qed

theorem async_wait_subscribes_witness:
  "(s_tcp (socks watching_world 0) \<or> s_udp (socks watching_world 0)) \<and>
   requested_action watching_world 0 = CURL_POLL_INOUT \<and>
   async_wait watching_world 7 CURL_POLL_IN 0 =
     watching_world\<lparr>trace := trace watching_world @
        [EvSocketCancel 0, EvAsyncWaitRead 0 7 CURL_POLL_IN, EvAsyncWaitWrite 0 7 CURL_POLL_OUT]\<rparr>"
proof -
  have b: "s_tcp (socks watching_world 0) \<or> s_udp (socks watching_world 0)"
    and r: "CURL_POLL_INOUT = requested_action watching_world 0"
    by (simp_all add: watching_world_def requested_action_def)
  have m: "True = (CURL_POLL_INOUT = CURL_POLL_INOUT \<or>
      (CURL_POLL_INOUT \<noteq> CURL_POLL_IN \<and> CURL_POLL_INOUT \<noteq> CURL_POLL_NONE))"
    and e: "CURL_POLL_INOUT = (if True then CURL_POLL_INOUT else CURL_POLL_IN)"
    by simp_all
  have bits: "CURL_POLL_INOUT AND CURL_POLL_IN \<noteq> 0" "CURL_POLL_INOUT AND CURL_POLL_OUT \<noteq> 0"
    by (simp_all add: CURL_POLL_INOUT_def CURL_POLL_IN_def CURL_POLL_OUT_def)
  from async_wait_subscribes [OF b r m e, of 7] bits b r show ?thesis by simp
qed

subsection \<open>\<^verbatim>\<open>implementation::terminate\<close>\<close>

text \<open>
  C3, as the source has it: \<^verbatim>\<open>terminate()\<close> on a bridge that is not terminated
  returns with the terminated flag set, the timer cancelled, the waits of every socket of
  the descriptor map cancelled (in key order), the descriptor map and the active set
  empty, and the bridge reference of every transfer that was in the active set reset.
\<close>

theorem terminate_detaches:
  assumes "\<not> i_terminated w"
    and "\<forall>it \<in> set (i_sockets w). s_tcp (socks w (snd it)) \<or> s_udp (socks w (snd it))"
  shows "\<exists>w'. terminate w = Inr w' \<and>
           i_terminated w' \<and>
           trace w' = trace w @ EvTimerCancel # map (\<lambda>it. EvSocketCancel (snd it)) (i_sockets w) \<and>
           i_sockets w' = [] \<and>
           i_transfers w' = [] \<and>
           (\<forall>t \<in> set (i_transfers w). \<not> t_impl (xfers w' t))"
proof -
  define w2 where "w2 = timer_cancel (w\<lparr>i_terminated := True\<rparr>)"
  define w3 where "w3 = foldl (\<lambda>v it. socketinfo_cancel v (snd it)) w2 (i_sockets w2)"
  define w4 where "w4 = w3\<lparr>i_sockets := []\<rparr>"
  define w5 where "w5 = foldl transfer_terminate w4 (i_transfers w4)"
  define w6 where "w6 = w5\<lparr>i_transfers := []\<rparr>"
  have t: "terminate w = Inr w6"
    using assms(1) by (simp add: terminate_def Let_def w6_def w5_def w4_def w3_def w2_def)
  have f2: "xfers w2 = xfers w" "socks w2 = socks w" "i_sockets w2 = i_sockets w"
    "i_transfers w2 = i_transfers w" "i_terminated w2" "trace w2 = trace w @ [EvTimerCancel]"
    by (simp_all add: w2_def timer_cancel_def log_event_def)
  have f3: "xfers w3 = xfers w" "socks w3 = socks w" "i_transfers w3 = i_transfers w"
    "i_terminated w3"
    using foldl_cancel_frame [of w2 "i_sockets w2"] f2 by (simp_all add: w3_def)
  have "\<forall>it \<in> set (i_sockets w2). s_tcp (socks w2 (snd it)) \<or> s_udp (socks w2 (snd it))"
    using assms(2) f2 by simp
  from foldl_cancel_trace [OF this]
  have t3: "trace w3 = trace w @ EvTimerCancel # map (\<lambda>it. EvSocketCancel (snd it)) (i_sockets w)"
    by (simp add: w3_def f2)
  have f4: "xfers w4 = xfers w" "socks w4 = socks w" "i_transfers w4 = i_transfers w"
    "i_terminated w4" "i_sockets w4 = []" "trace w4 = trace w3"
    using f3 by (simp_all add: w4_def)
  have f5: "socks w5 = socks w" "trace w5 = trace w3" "i_sockets w5 = []" "i_terminated w5"
    using foldl_terminate_frame [of w4 "i_transfers w4"] f4 by (simp_all add: w5_def)
  have x5: "xfers w5 t = (if t \<in> set (i_transfers w) then (xfers w t)\<lparr>t_impl := False\<rparr> else xfers w t)" for t
    using foldl_terminate_xfers [of w4 "i_transfers w4" t] f4 by (simp add: w5_def)
  have "i_terminated w6" "trace w6 = trace w @ EvTimerCancel # map (\<lambda>it. EvSocketCancel (snd it)) (i_sockets w)"
    "i_sockets w6 = []" "i_transfers w6 = []"
    "\<forall>t \<in> set (i_transfers w). \<not> t_impl (xfers w6 t)"
    using f5 t3 x5 by (simp_all add: w6_def)
  with t show ?thesis by blast
qed


theorem terminate_detaches_witness:
  "\<not> i_terminated terminating_world \<and>
   (\<exists>w'. terminate terminating_world = Inr w' \<and> i_terminated w' \<and>
      trace w' = [EvTimerCancel, EvSocketCancel 0] \<and>
      i_sockets w' = [] \<and> i_transfers w' = [] \<and> \<not> t_impl (xfers w' 0))"
proof -
  have "\<forall>it \<in> set (i_sockets terminating_world).
      s_tcp (socks terminating_world (snd it)) \<or> s_udp (socks terminating_world (snd it))"
    by (simp add: terminating_world_facts)
  from terminate_detaches [OF terminating_world_facts(1) this]
  show ?thesis by (auto simp: terminating_world_facts)
qed

text \<open>
  C3 as stated also has every self-reference released. \<^verbatim>\<open>terminate()\<close> calls
  \<^verbatim>\<open>socketinfo::cancel\<close> and \<^verbatim>\<open>transfer::terminate\<close>, which do not touch
  \<^verbatim>\<open>lock_\<close>: a socket and a transfer that held their self-reference before still hold
  it afterwards.
\<close>

theorem terminate_keeps_locks_counterexample:
  "\<not> i_terminated terminating_world \<and>
   map_find (i_sockets terminating_world) 7 = Some 0 \<and> s_lock (socks terminating_world 0) \<and>
   0 \<in> set (i_transfers terminating_world) \<and> t_lock (xfers terminating_world 0) \<and>
   (\<exists>w'. terminate terminating_world = Inr w' \<and> i_terminated w' \<and>
      s_lock (socks w' 0) \<and> t_lock (xfers w' 0))"
  by (simp add: terminating_world_def new_implementation_def new_transfer_def terminate_def
      Let_def timer_cancel_def log_event_def socketinfo_cancel_def transfer_terminate_def
      upd_transfer_def)

subsection \<open>\<^verbatim>\<open>implementation::socket_function\<close> when \<^verbatim>\<open>socketinfo::create\<close> fails\<close>

text \<open>
  C9, as the source has it: the engine asks to watch a descriptor that has no
  \<^verbatim>\<open>socketinfo\<close> yet. When the probe fails (\<^verbatim>\<open>getsockopt\<close> or \<^verbatim>\<open>getsockname\<close>
  fails, or the type is neither stream nor datagram, or the family neither IPv4 nor IPv6),
  \<^verbatim>\<open>socket_function\<close> creates and inserts nothing, subscribes to nothing, leaves the
  state as it was and returns 0, as it does on success. When the probe succeeds and the
  reactor socket refuses the duplicate, \<^verbatim>\<open>assign\<close> throws before any
  \<^verbatim>\<open>socketinfo\<close> is constructed and the callback returns no value.
\<close>

theorem socket_function_setup_failure:
  assumes "action \<noteq> CURL_POLL_REMOVE" and "map_find (i_sockets w) s = None"
  shows "(getsockopt_type (os w) s = None \<or> getsockname_family (os w) s = None \<or>
          (\<exists>ty family. getsockopt_type (os w) s = Some ty \<and> getsockname_family (os w) s = Some family \<and>
             ((ty \<noteq> SOCK_STREAM \<and> ty \<noteq> SOCK_DGRAM) \<or> (family \<noteq> AF_INET \<and> family \<noteq> AF_INET6)))
          \<longrightarrow> socket_function w s action None = Inr (0, w)) \<and>
         ((\<exists>ty family. getsockopt_type (os w) s = Some ty \<and> getsockname_family (os w) s = Some family \<and>
             (ty = SOCK_STREAM \<or> ty = SOCK_DGRAM) \<and> (family = AF_INET \<or> family = AF_INET6)) \<and>
          \<not> dup_assign_ok (os w) s
          \<longrightarrow> socket_function w s action None = Inl SystemError)"
proof (intro conjI impI)
  assume "getsockopt_type (os w) s = None \<or> getsockname_family (os w) s = None \<or>
          (\<exists>ty family. getsockopt_type (os w) s = Some ty \<and> getsockname_family (os w) s = Some family \<and>
             ((ty \<noteq> SOCK_STREAM \<and> ty \<noteq> SOCK_DGRAM) \<or> (family \<noteq> AF_INET \<and> family \<noteq> AF_INET6)))"
  then have "socketinfo_create (impl_protector_enter w) s = Inr (None, impl_protector_enter w)"
    by (auto simp: socketinfo_create_def split: option.splits)
  with assms show "socket_function w s action None = Inr (0, w)"
    by (simp add: socket_function_def Let_def)
next
  assume "(\<exists>ty family. getsockopt_type (os w) s = Some ty \<and> getsockname_family (os w) s = Some family \<and>
             (ty = SOCK_STREAM \<or> ty = SOCK_DGRAM) \<and> (family = AF_INET \<or> family = AF_INET6)) \<and>
          \<not> dup_assign_ok (os w) s"
  then have "socketinfo_create (impl_protector_enter w) s = Inl SystemError"
    by (auto simp: socketinfo_create_def SOCK_STREAM_def SOCK_DGRAM_def)
  with assms show "socket_function w s action None = Inl SystemError"
    by (simp add: socket_function_def Let_def)
qed

theorem socket_function_setup_failure_witness:
  "CURL_POLL_IN \<noteq> CURL_POLL_REMOVE \<and> map_find (i_sockets new_implementation) 5 = None \<and>
   getsockopt_type (os new_implementation) 5 = None \<and>
   socket_function new_implementation 5 CURL_POLL_IN None = Inr (0, new_implementation) \<and>
   \<not> dup_assign_ok (os new_implementation) 6 \<and>
   socket_function new_implementation 6 CURL_POLL_IN None = Inl SystemError"
proof -
  have a: "CURL_POLL_IN \<noteq> CURL_POLL_REMOVE"
    by (simp add: CURL_POLL_IN_def CURL_POLL_REMOVE_def)
  have m: "map_find (i_sockets new_implementation) 5 = None"
    "map_find (i_sockets new_implementation) 6 = None"
    by (simp_all add: new_implementation_def)
  have o: "getsockopt_type (os new_implementation) 5 = None"
    "getsockopt_type (os new_implementation) 6 = Some SOCK_STREAM"
    "getsockname_family (os new_implementation) 6 = Some AF_INET"
    "\<not> dup_assign_ok (os new_implementation) 6"
    by (simp_all add: new_implementation_def example_os_def)
  from socket_function_setup_failure [OF a m(1)] socket_function_setup_failure [OF a m(2)] a m o
  show ?thesis by blast
qed

text \<open>
  C9 as stated has the return value report the failure. Descriptor 5 of the sample
  environment cannot be probed, and the callback returns 0.
\<close>

theorem socket_function_returns_0_counterexample:
  "getsockopt_type (os new_implementation) 5 = None \<and>
   (\<exists>w'. socket_function new_implementation 5 CURL_POLL_IN None = Inr (0, w'))"
  by (simp add: new_implementation_def example_os_def socket_function_def Let_def
      socketinfo_create_def impl_protector_enter_def impl_protector_leave_def
      CURL_POLL_IN_def CURL_POLL_REMOVE_def)


end
